theory Spec2Isabelle
  imports Main
begin

section \<open>Storage, objects and outcomes\<close>

text \<open>
  The header \<^verbatim>\<open>vector.h\<close> defines two class templates: \<^verbatim>\<open>RawMemory<T>\<close>, a block of
  uninitialised storage for a number of \<^verbatim>\<open>T\<close> objects, and \<^verbatim>\<open>Vector<T>\<close>, which constructs
  and destroys objects inside such a block.

  A cell of a block either is raw storage (\<open>None\<close>) or holds a live object. A live object
  has a value, or is in the unspecified state a move leaves behind.
\<close>

datatype 'a obj = Val 'a | MovedFrom

type_synonym 'a slot = "'a obj option"

text \<open>
  The template parameter \<^verbatim>\<open>T\<close>: the two type traits \<^verbatim>\<open>TransferDataToNewHeap\<close> asks for,
  and the value of \<^verbatim>\<open>T()\<close>. Copying, moving and assigning a \<^verbatim>\<open>T\<close> are taken to succeed;
  the element operations that may throw in this model are the constructor call
  \<^verbatim>\<open>T(std::forward<Args>(args)...)\<close> of \<^verbatim>\<open>EmplaceBack\<close> and \<^verbatim>\<open>Emplace\<close>, and \<^verbatim>\<open>T()\<close>.
\<close>

record 'a elem_type =
  is_nothrow_move_constructible :: bool
  is_copy_constructible :: bool
  value_init :: 'a

text \<open>
  What a call that is given a size meets at run time: \<^verbatim>\<open>sizeof(T)\<close>; the requests, by
  their number of bytes, that \<^verbatim>\<open>operator new\<close> answers with \<^verbatim>\<open>std::bad_alloc\<close>; and the
  value-initialisations \<^verbatim>\<open>T()\<close> of one loop, counted from 0, that throw.
\<close>

record runtime =
  sizeof_T :: nat
  operator_new_throws :: "nat \<Rightarrow> bool"
  value_init_throws :: "nat \<Rightarrow> bool"

text \<open>A run time in which nothing throws, for a \<^verbatim>\<open>T\<close> of \<open>s\<close> bytes.\<close>

definition plain_runtime :: "nat \<Rightarrow> runtime" where
  "plain_runtime s =
     \<lparr>sizeof_T = s, operator_new_throws = (\<lambda>bytes. False), value_init_throws = (\<lambda>k. False)\<rparr>"

text \<open>
  What a member function does: it returns a result and leaves a state, or an exception
  leaves it with a state, or the call has no defined behaviour (a failed \<^verbatim>\<open>assert\<close>, an
  iterator outside the vector, a read of raw storage, a write past the end of a block).
\<close>

datatype ('r, 's) outcome = Returned 'r 's | Thrown 's | Undefined

text \<open>
  The arguments of an emplacing call together with what \<^verbatim>\<open>T\<close>'s constructor makes of them:
  a value, a copy of the element \<^verbatim>\<open>v[i]\<close> of the vector the call is made on (the argument
  is a \<^verbatim>\<open>const T&\<close> into the vector's own buffer), or an exception.
\<close>

datatype 'a ctor_args = Args 'a | Alias nat | Bad

datatype 'a built = Built "'a obj" | CtorThrows | CtorUndefined

definition construct :: "'a ctor_args \<Rightarrow> 'a slot list \<Rightarrow> 'a built" where
  "construct args b =
     (case args of
        Args x \<Rightarrow> Built (Val x)
      | Alias i \<Rightarrow>
          (if i < length b then (case b ! i of Some x \<Rightarrow> Built x | None \<Rightarrow> CtorUndefined)
           else CtorUndefined)
      | Bad \<Rightarrow> CtorThrows)"

section \<open>The standard algorithms the header calls\<close>

text \<open>
  Each algorithm is the loop of its definition in the C++ standard, over the cells of
  the block (or the two blocks) its pointer arguments point into. A pointer is the index
  of its cell.
\<close>

fun uninitialized_move_n ::
  "'a slot list \<Rightarrow> nat \<Rightarrow> nat \<Rightarrow> 'a slot list \<Rightarrow> nat \<Rightarrow> 'a slot list \<times> 'a slot list" where
  "uninitialized_move_n src first 0 dst d_first = (src, dst)"
| "uninitialized_move_n src first (Suc n) dst d_first =
     uninitialized_move_n (src[first := Some MovedFrom]) (Suc first) n
       (dst[d_first := src ! first]) (Suc d_first)"

text \<open>The same loop when source and destination lie in one block.\<close>

fun uninitialized_move_n_within :: "'a slot list \<Rightarrow> nat \<Rightarrow> nat \<Rightarrow> nat \<Rightarrow> 'a slot list" where
  "uninitialized_move_n_within b first 0 d_first = b"
| "uninitialized_move_n_within b first (Suc n) d_first =
     uninitialized_move_n_within (b[d_first := b ! first, first := Some MovedFrom])
       (Suc first) n (Suc d_first)"

fun uninitialized_copy_n ::
  "'a slot list \<Rightarrow> nat \<Rightarrow> nat \<Rightarrow> 'a slot list \<Rightarrow> nat \<Rightarrow> 'a slot list" where
  "uninitialized_copy_n src first 0 dst d_first = dst"
| "uninitialized_copy_n src first (Suc n) dst d_first =
     uninitialized_copy_n src (Suc first) n (dst[d_first := src ! first]) (Suc d_first)"

fun copy_n :: "'a slot list \<Rightarrow> nat \<Rightarrow> nat \<Rightarrow> 'a slot list \<Rightarrow> nat \<Rightarrow> 'a slot list" where
  "copy_n src first 0 dst d_first = dst"
| "copy_n src first (Suc n) dst d_first =
     copy_n src (Suc first) n (dst[d_first := src ! first]) (Suc d_first)"

definition destroy_at :: "'a slot list \<Rightarrow> nat \<Rightarrow> 'a slot list" where
  "destroy_at b p = b[p := None]"

fun destroy_n :: "'a slot list \<Rightarrow> nat \<Rightarrow> nat \<Rightarrow> 'a slot list" where
  "destroy_n b first 0 = b"
| "destroy_n b first (Suc n) = destroy_n (destroy_at b first) (Suc first) n"

text \<open>The objects \<^verbatim>\<open>std::destroy_n(first, n)\<close> runs the destructor on, as it finds them.\<close>

definition destroyed :: "'a slot list \<Rightarrow> nat \<Rightarrow> nat \<Rightarrow> 'a slot list" where
  "destroyed b first n = take n (drop first b)"

text \<open>
  \<^verbatim>\<open>std::uninitialized_value_construct_n(first, n)\<close> constructs at \<open>current\<close>, from
  \<open>first\<close> on. When a \<^verbatim>\<open>T()\<close> throws, it destroys the objects it has constructed, from
  \<open>first\<close> up to \<open>current\<close>, and throws on: \<open>Inl\<close> is the block the exception leaves.
\<close>

fun uninitialized_value_construct_from ::
  "runtime \<Rightarrow> 'a elem_type \<Rightarrow> 'a slot list \<Rightarrow> nat \<Rightarrow> nat \<Rightarrow> nat
     \<Rightarrow> 'a slot list + 'a slot list" where
  "uninitialized_value_construct_from R T b first current 0 = Inr b"
| "uninitialized_value_construct_from R T b first current (Suc n) =
     (if value_init_throws R (current - first)
      then Inl (destroy_n b first (current - first))
      else uninitialized_value_construct_from R T (b[current := Some (Val (value_init T))])
             first (Suc current) n)"

definition uninitialized_value_construct_n ::
  "runtime \<Rightarrow> 'a elem_type \<Rightarrow> 'a slot list \<Rightarrow> nat \<Rightarrow> nat \<Rightarrow> 'a slot list + 'a slot list" where
  "uninitialized_value_construct_n R T b first n =
     uninitialized_value_construct_from R T b first first n"

text \<open>
  \<^verbatim>\<open>std::move(first, last, d_first)\<close> and \<^verbatim>\<open>std::move_backward(first, last, d_last)\<close>,
  both inside one block. The loops of the standard run \<^verbatim>\<open>while (first != last)\<close>; a range
  with \<open>last < first\<close> is not a range, and the model stops there.
\<close>

function std_move :: "'a slot list \<Rightarrow> nat \<Rightarrow> nat \<Rightarrow> nat \<Rightarrow> 'a slot list" where
  "std_move b first last' d_first =
     (if first < last'
      then std_move (b[d_first := b ! first, first := Some MovedFrom])
             (Suc first) last' (Suc d_first)
      else b)"
  by pat_completeness auto
termination
  by (relation "measure (\<lambda>(b, first, last', d_first). last' - first)") auto

function move_backward :: "'a slot list \<Rightarrow> nat \<Rightarrow> nat \<Rightarrow> nat \<Rightarrow> 'a slot list" where
  "move_backward b first last' d_last =
     (if first < last'
      then move_backward (b[d_last - 1 := b ! (last' - 1), last' - 1 := Some MovedFrom])
             first (last' - 1) (d_last - 1)
      else b)"
  by pat_completeness auto
termination
  by (relation "measure (\<lambda>(b, first, last', d_last). last' - first)") auto

section \<open>RawMemory\<close>

text \<open>
  \<^verbatim>\<open>buffer_\<close> is null (\<open>None\<close>) or points to a block that no other \<^verbatim>\<open>RawMemory\<close> points to:
  the copy operations are deleted, so the block is kept with its owner.
\<close>

record 'a RawMemory =
  buffer_m :: "'a slot list option"
  capacity_m :: nat

text \<open>
  \<^verbatim>\<open>Allocate(n)\<close> asks \<^verbatim>\<open>operator new\<close> for \<^verbatim>\<open>n * sizeof(T)\<close> bytes, a product of 64-bit
  \<^verbatim>\<open>size_t\<close> values. \<^verbatim>\<open>operator new\<close> throws, or hands out a block of that many bytes:
  room for \<open>n\<close> objects when the product has not wrapped, for fewer when it has.
\<close>

datatype 'a allocation = Block "'a slot list option" | Bad_alloc

definition Allocate :: "runtime \<Rightarrow> nat \<Rightarrow> 'a allocation" where
  "Allocate R n =
     (if n \<noteq> 0 then
        (let bytes = (n * sizeof_T R) mod 2 ^ 64
         in if operator_new_throws R bytes then Bad_alloc
            else Block (Some (replicate (bytes div sizeof_T R) None)))
      else Block None)"

definition RawMemory_default :: "'a RawMemory" where
  "RawMemory_default = \<lparr>buffer_m = None, capacity_m = 0\<rparr>"

text \<open>
  \<^verbatim>\<open>RawMemory(size_t capacity)\<close>: \<open>None\<close> when the allocation throws, and with it the
  constructor.
\<close>

definition RawMemory_sized :: "runtime \<Rightarrow> nat \<Rightarrow> 'a RawMemory option" where
  "RawMemory_sized R capacity =
     (case Allocate R capacity of
        Bad_alloc \<Rightarrow> None
      | Block b \<Rightarrow> Some \<lparr>buffer_m = b, capacity_m = capacity\<rparr>)"

text \<open>
  The object that constructor makes when the product has not wrapped and the request is
  granted. The calls that have to store \<^verbatim>\<open>size_\<close> objects or twice as many (the growth
  paths of \<^verbatim>\<open>EmplaceBack\<close> and \<^verbatim>\<open>Emplace\<close>, the copy constructor) are modelled with it:
  their request is sized by a block that is live. The calls that are given a size
  (\<^verbatim>\<open>Vector(n)\<close>, \<^verbatim>\<open>Reserve\<close>, \<^verbatim>\<open>Resize\<close>) are modelled with \<open>RawMemory_sized\<close>.
\<close>

definition RawMemory_new :: "nat \<Rightarrow> 'a RawMemory" where
  "RawMemory_new capacity =
     \<lparr>buffer_m = (if capacity \<noteq> 0 then Some (replicate capacity None) else None),
      capacity_m = capacity\<rparr>"

text \<open>\<^verbatim>\<open>Swap\<close> changes both objects: the model returns \<^verbatim>\<open>*this\<close> and \<^verbatim>\<open>other\<close>.\<close>

definition RawMemory_Swap :: "'a RawMemory \<Rightarrow> 'a RawMemory \<Rightarrow> 'a RawMemory \<times> 'a RawMemory" where
  "RawMemory_Swap this other =
     (this\<lparr>buffer_m := buffer_m other, capacity_m := capacity_m other\<rparr>,
      other\<lparr>buffer_m := buffer_m this, capacity_m := capacity_m this\<rparr>)"

text \<open>
  The move constructor swaps a default-initialised object with \<^verbatim>\<open>other\<close>. The move
  assignment frees its block, nulls \<^verbatim>\<open>buffer_\<close> and swaps with \<^verbatim>\<open>rhs\<close> (two distinct
  objects).
\<close>

definition RawMemory_move :: "'a RawMemory \<Rightarrow> 'a RawMemory \<times> 'a RawMemory" where
  "RawMemory_move other = RawMemory_Swap RawMemory_default other"

definition RawMemory_move_assign ::
  "'a RawMemory \<Rightarrow> 'a RawMemory \<Rightarrow> 'a RawMemory \<times> 'a RawMemory" where
  "RawMemory_move_assign this rhs = RawMemory_Swap (this\<lparr>buffer_m := None\<rparr>) rhs"

text \<open>
  The cells \<^verbatim>\<open>GetAddress()\<close> points to, and a block written back through that pointer
  (nothing is written through a null pointer).
\<close>

definition GetAddress :: "'a RawMemory \<Rightarrow> 'a slot list" where
  "GetAddress m = (case buffer_m m of None \<Rightarrow> [] | Some b \<Rightarrow> b)"

definition store :: "'a RawMemory \<Rightarrow> 'a slot list \<Rightarrow> 'a RawMemory" where
  "store m b = m\<lparr>buffer_m := (case buffer_m m of None \<Rightarrow> None | Some _ \<Rightarrow> Some b)\<rparr>"

section \<open>Vector\<close>

record 'a Vector =
  data_v :: "'a RawMemory"
  size_v :: nat

text \<open>
  \<^verbatim>\<open>size_t\<close> is \<open>nat\<close>. The arithmetic of \<^verbatim>\<open>Vector\<close> on sizes adds one, subtracts one
  from a positive size, or doubles: \<^verbatim>\<open>size_ * 2\<close> wraps in 64 bits only from \<open>2\<^sup>6\<^sup>3\<close> live
  elements on, more than a block of a 64-bit address space holds. The product that
  does wrap for sizes a caller can pass is the one in \<^verbatim>\<open>Allocate\<close>.

  An iterator is a \<^verbatim>\<open>T*\<close> into the buffer: its distance from \<^verbatim>\<open>data_.GetAddress()\<close>.
\<close>

type_synonym iterator = nat

definition Capacity :: "'a Vector \<Rightarrow> nat" where
  "Capacity v = capacity_m (data_v v)"

definition Size :: "'a Vector \<Rightarrow> nat" where
  "Size v = size_v v"

definition begin_v :: "'a Vector \<Rightarrow> iterator" where
  "begin_v v = 0"

definition end_v :: "'a Vector \<Rightarrow> iterator" where
  "end_v v = 0 + size_v v"

definition cbegin :: "'a Vector \<Rightarrow> iterator" where
  "cbegin v = begin_v v"

definition cend :: "'a Vector \<Rightarrow> iterator" where
  "cend v = end_v v"

text \<open>\<^verbatim>\<open>iterator operator+(size_t n)\<close>.\<close>

definition plus_v :: "'a Vector \<Rightarrow> nat \<Rightarrow> iterator" where
  "plus_v v n = 0 + size_v v"

subsection \<open>Constructors, swap, assignment\<close>

definition Vector_default :: "'a Vector" where
  "Vector_default = \<lparr>data_v = RawMemory_default, size_v = 0\<rparr>"

text \<open>
  \<^verbatim>\<open>Vector(size_t n)\<close> returns the vector it constructs; an exception leaves no object.
  Constructing \<open>n\<close> objects in a block with room for fewer writes past its end.
\<close>

definition Vector_n :: "runtime \<Rightarrow> 'a elem_type \<Rightarrow> nat \<Rightarrow> ('a Vector, unit) outcome" where
  "Vector_n R T n =
     (case RawMemory_sized R n of
        None \<Rightarrow> Thrown ()
      | Some d \<Rightarrow>
          if length (GetAddress d) < n then Undefined
          else
            (case uninitialized_value_construct_n R T (GetAddress d) 0 n of
               Inl b \<Rightarrow> Thrown ()
             | Inr b \<Rightarrow> Returned \<lparr>data_v = store d b, size_v = n\<rparr> ()))"

definition Vector_copy :: "'a Vector \<Rightarrow> 'a Vector" where
  "Vector_copy other =
     (let d = RawMemory_new (size_v other)
      in \<lparr>data_v = store d (uninitialized_copy_n (GetAddress (data_v other)) 0 (size_v other)
                              (GetAddress d) 0),
          size_v = size_v other\<rparr>)"

definition Swap :: "'a Vector \<Rightarrow> 'a Vector \<Rightarrow> 'a Vector \<times> 'a Vector" where
  "Swap this other =
     (let (d, od) = RawMemory_Swap (data_v this) (data_v other)
      in (\<lparr>data_v = d, size_v = size_v other\<rparr>, \<lparr>data_v = od, size_v = size_v this\<rparr>))"

definition Vector_move :: "'a Vector \<Rightarrow> 'a Vector \<times> 'a Vector" where
  "Vector_move other = Swap Vector_default other"

text \<open>
  Copy assignment. \<open>None\<close> stands for \<^verbatim>\<open>rhs\<close> being the object itself, the case the
  test \<^verbatim>\<open>this != &rhs\<close> sets apart. The local \<^verbatim>\<open>rhs_copy\<close> dies at the end of its block.
\<close>

definition assign_copy :: "'a Vector \<Rightarrow> 'a Vector option \<Rightarrow> 'a Vector" where
  "assign_copy this rhs_opt =
     (case rhs_opt of
        None \<Rightarrow> this
      | Some rhs \<Rightarrow>
          if size_v rhs > capacity_m (data_v this) then
            (let rhs_copy = Vector_copy rhs in fst (Swap this rhs_copy))
          else
            (let b = copy_n (GetAddress (data_v rhs)) 0 (min (size_v this) (size_v rhs))
                       (GetAddress (data_v this)) 0;
                 b' = (if size_v this > size_v rhs
                       then destroy_n b (size_v rhs) (size_v this - size_v rhs)
                       else uninitialized_copy_n (GetAddress (data_v rhs)) (size_v this)
                              (size_v rhs - size_v this) b (size_v this))
             in this\<lparr>data_v := store (data_v this) b', size_v := size_v rhs\<rparr>))"

definition assign_move :: "'a Vector \<Rightarrow> 'a Vector \<Rightarrow> 'a Vector \<times> 'a Vector" where
  "assign_move this rhs = Swap this rhs"

subsection \<open>Capacity\<close>

definition TransferDataToNewHeap ::
  "'a elem_type \<Rightarrow> 'a slot list \<Rightarrow> nat \<Rightarrow> nat \<Rightarrow> 'a slot list \<Rightarrow> nat
     \<Rightarrow> 'a slot list \<times> 'a slot list" where
  "TransferDataToNewHeap T src first n dst d_first =
     (if is_nothrow_move_constructible T \<or> \<not> is_copy_constructible T
      then uninitialized_move_n src first n dst d_first
      else (src, uninitialized_copy_n src first n dst d_first))"

text \<open>
  A reallocation ends with \<^verbatim>\<open>std::destroy_n\<close> over the old block. The traced form of a
  member function that can reallocate returns, before its outcome, the objects that call
  destroys, in the state their destructors find them; it returns none when the call does
  not get that far.

  \<^verbatim>\<open>Reserve\<close> is given a size: the allocation can throw, which leaves the vector as it
  was, and the transfer of \<^verbatim>\<open>size_\<close> objects into a block with room for fewer writes past
  its end.
\<close>

definition Reserve_traced ::
  "runtime \<Rightarrow> 'a elem_type \<Rightarrow> nat \<Rightarrow> 'a Vector \<Rightarrow> 'a slot list \<times> (unit, 'a Vector) outcome" where
  "Reserve_traced R T new_capacity v =
     (if new_capacity \<le> capacity_m (data_v v) then ([], Returned () v)
      else
        (case RawMemory_sized R new_capacity of
           None \<Rightarrow> ([], Thrown v)
         | Some new_data \<Rightarrow>
             if length (GetAddress new_data) < size_v v then ([], Undefined)
             else
               (let (old, new) = TransferDataToNewHeap T (GetAddress (data_v v)) 0 (size_v v)
                                   (GetAddress new_data) 0;
                    gone = destroyed old 0 (size_v v);
                    old' = destroy_n old 0 (size_v v);
                    (d, nd) = RawMemory_Swap (store (data_v v) old') (store new_data new)
                in (gone, Returned () (v\<lparr>data_v := d\<rparr>)))))"

definition Reserve :: "runtime \<Rightarrow> 'a elem_type \<Rightarrow> nat \<Rightarrow> 'a Vector \<Rightarrow> (unit, 'a Vector) outcome" where
  "Reserve R T new_capacity v = snd (Reserve_traced R T new_capacity v)"

text \<open>
  \<^verbatim>\<open>Resize\<close>. An exception of \<^verbatim>\<open>Reserve\<close> or of a \<^verbatim>\<open>T()\<close> leaves before \<^verbatim>\<open>size_\<close> is
  assigned. Constructing up to \<open>new_size\<close> in a block with room for fewer objects writes
  past its end.
\<close>

definition Resize :: "runtime \<Rightarrow> 'a elem_type \<Rightarrow> nat \<Rightarrow> 'a Vector \<Rightarrow> (unit, 'a Vector) outcome" where
  "Resize R T new_size v =
     (if size_v v < new_size then
        (case (if new_size > capacity_m (data_v v) then Reserve R T new_size v
               else Returned () v) of
           Thrown v1 \<Rightarrow> Thrown v1
         | Undefined \<Rightarrow> Undefined
         | Returned u v1 \<Rightarrow>
             if length (GetAddress (data_v v1)) < new_size then Undefined
             else
               (case uninitialized_value_construct_n R T (GetAddress (data_v v1)) (size_v v1)
                       (new_size - size_v v1) of
                  Inl b \<Rightarrow> Thrown (v1\<lparr>data_v := store (data_v v1) b\<rparr>)
                | Inr b \<Rightarrow> Returned () (v1\<lparr>data_v := store (data_v v1) b, size_v := new_size\<rparr>)))
      else
        Returned ()
          (v\<lparr>data_v := store (data_v v)
                 (destroy_n (GetAddress (data_v v)) new_size (size_v v - new_size)),
             size_v := new_size\<rparr>))"

subsection \<open>The last element\<close>

text \<open>
  \<^verbatim>\<open>return data_[size_++]\<close>: the subscript of \<^verbatim>\<open>RawMemory\<close> asserts \<^verbatim>\<open>index < capacity_\<close>.
  The reference returned is the index of its cell.
\<close>

definition return_back :: "'a Vector \<Rightarrow> (nat, 'a Vector) outcome" where
  "return_back v =
     (if size_v v < capacity_m (data_v v)
      then Returned (size_v v) (v\<lparr>size_v := size_v v + 1\<rparr>)
      else Undefined)"

definition EmplaceBack_traced ::
  "'a elem_type \<Rightarrow> 'a ctor_args \<Rightarrow> 'a Vector \<Rightarrow> 'a slot list \<times> (nat, 'a Vector) outcome" where
  "EmplaceBack_traced T args v =
     (if size_v v = capacity_m (data_v v) then
        (let new_data = RawMemory_new (if size_v v = 0 then 1 else size_v v * 2)
         in case construct args (GetAddress (data_v v)) of
              CtorThrows \<Rightarrow> ([], Thrown v)
            | CtorUndefined \<Rightarrow> ([], Undefined)
            | Built x \<Rightarrow>
                (let new0 = (GetAddress new_data)[size_v v := Some x];
                     (old, new) = TransferDataToNewHeap T (GetAddress (data_v v)) 0 (size_v v)
                                    new0 0;
                     gone = destroyed old 0 (size_v v);
                     old' = destroy_n old 0 (size_v v);
                     (d, nd) = RawMemory_Swap (store (data_v v) old') (store new_data new)
                 in (gone, return_back (v\<lparr>data_v := d\<rparr>))))
      else
        (case construct args (GetAddress (data_v v)) of
           CtorThrows \<Rightarrow> ([], Thrown v)
         | CtorUndefined \<Rightarrow> ([], Undefined)
         | Built x \<Rightarrow>
             ([], return_back
                    (v\<lparr>data_v := store (data_v v)
                                    ((GetAddress (data_v v))[size_v v := Some x])\<rparr>))))"

definition EmplaceBack :: "'a elem_type \<Rightarrow> 'a ctor_args \<Rightarrow> 'a Vector \<Rightarrow> (nat, 'a Vector) outcome" where
  "EmplaceBack T args v = snd (EmplaceBack_traced T args v)"

definition PushBack :: "'a elem_type \<Rightarrow> 'a ctor_args \<Rightarrow> 'a Vector \<Rightarrow> (unit, 'a Vector) outcome" where
  "PushBack T value v =
     (case EmplaceBack T value v of
        Returned r v' \<Rightarrow> Returned () v'
      | Thrown v' \<Rightarrow> Thrown v'
      | Undefined \<Rightarrow> Undefined)"

definition PopBack :: "'a Vector \<Rightarrow> (unit, 'a Vector) outcome" where
  "PopBack v =
     (if size_v v > 0
      then Returned ()
             (v\<lparr>data_v := store (data_v v) (destroy_at (GetAddress (data_v v)) (size_v v - 1)),
                size_v := size_v v - 1\<rparr>)
      else Undefined)"

subsection \<open>Any position\<close>

text \<open>
  An iterator argument has to lie in \<open>[begin, end]\<close>; the header does not check it, and
  the model gives \<open>Undefined\<close> outside.
\<close>

definition Emplace_traced ::
  "'a elem_type \<Rightarrow> iterator \<Rightarrow> 'a ctor_args \<Rightarrow> 'a Vector
     \<Rightarrow> 'a slot list \<times> (iterator, 'a Vector) outcome" where
  "Emplace_traced T pos args v =
     (if pos < cbegin v \<or> cend v < pos then ([], Undefined)
      else
        (let pos_count = pos - cbegin v in
         if cend v = pos then
           (let (gone, out) = EmplaceBack_traced T args v
            in (gone,
                case out of
                  Returned r v' \<Rightarrow> Returned (begin_v v' + pos_count) v'
                | Thrown v' \<Rightarrow> Thrown v'
                | Undefined \<Rightarrow> Undefined))
         else if size_v v = capacity_m (data_v v) then
           (let new_data = RawMemory_new (if size_v v = 0 then 1 else size_v v * 2)
            in case construct args (GetAddress (data_v v)) of
                 CtorThrows \<Rightarrow> ([], Thrown v)
               | CtorUndefined \<Rightarrow> ([], Undefined)
               | Built x \<Rightarrow>
                   (let new0 = (GetAddress new_data)[pos_count := Some x];
                        (old1, new1) = TransferDataToNewHeap T (GetAddress (data_v v)) 0
                                         pos_count new0 0;
                        dist_to_end = cend v - pos;
                        (old2, new2) = TransferDataToNewHeap T old1 pos_count dist_to_end
                                         new1 (pos_count + 1);
                        gone = destroyed old2 0 (size_v v);
                        old' = destroy_n old2 0 (size_v v);
                        (d, nd) = RawMemory_Swap (store (data_v v) old') (store new_data new2);
                        v' = v\<lparr>data_v := d, size_v := size_v v + 1\<rparr>
                    in (gone, Returned (begin_v v' + pos_count) v')))
         else
           (case construct args (GetAddress (data_v v)) of
              CtorThrows \<Rightarrow> ([], Thrown v)
            | CtorUndefined \<Rightarrow> ([], Undefined)
            | Built tmp \<Rightarrow>
                (let b1 = uninitialized_move_n_within (GetAddress (data_v v)) (end_v v - 1) 1
                            (end_v v);
                     b2 = move_backward b1 (begin_v v + pos_count) (end_v v - 1) (end_v v);
                     b3 = b2[pos_count := Some tmp];
                     v' = v\<lparr>data_v := store (data_v v) b3, size_v := size_v v + 1\<rparr>
                 in ([], Returned (begin_v v' + pos_count) v')))))"

definition Emplace ::
  "'a elem_type \<Rightarrow> iterator \<Rightarrow> 'a ctor_args \<Rightarrow> 'a Vector \<Rightarrow> (iterator, 'a Vector) outcome" where
  "Emplace T pos args v = snd (Emplace_traced T pos args v)"

definition Insert ::
  "'a elem_type \<Rightarrow> iterator \<Rightarrow> 'a ctor_args \<Rightarrow> 'a Vector \<Rightarrow> (iterator, 'a Vector) outcome" where
  "Insert T pos value v = Emplace T pos value v"

definition Erase :: "iterator \<Rightarrow> 'a Vector \<Rightarrow> (iterator, 'a Vector) outcome" where
  "Erase pos v =
     (if pos < cbegin v \<or> cend v < pos then Undefined
      else if cend v = pos then
        (case PopBack v of
           Returned u v' \<Rightarrow> Returned (end_v v') v'
         | Thrown v' \<Rightarrow> Thrown v'
         | Undefined \<Rightarrow> Undefined)
      else
        (let pos_count = pos - cbegin v;
             b = std_move (GetAddress (data_v v)) (begin_v v + pos_count + 1) (end_v v)
                   (begin_v v + pos_count)
         in case PopBack (v\<lparr>data_v := store (data_v v) b\<rparr>) of
              Returned u v' \<Rightarrow> Returned (begin_v v' + pos_count) v'
            | Thrown v' \<Rightarrow> Thrown v'
            | Undefined \<Rightarrow> Undefined))"

section \<open>What a vector holds\<close>

text \<open>The objects seen by a traversal from \<^verbatim>\<open>begin()\<close> to \<^verbatim>\<open>end()\<close>.\<close>

definition elems :: "'a Vector \<Rightarrow> 'a obj list" where
  "elems v = map the (take (size_v v) (GetAddress (data_v v)))"

text \<open>
  The representation invariant of the data model: the buffer is null exactly when the
  capacity is zero and has \<^verbatim>\<open>capacity_\<close> cells otherwise, the length is at most the
  capacity, the first \<^verbatim>\<open>size_\<close> cells hold live objects and the rest is raw storage.
\<close>

definition RawMemory_inv :: "'a RawMemory \<Rightarrow> bool" where
  "RawMemory_inv m =
     (case buffer_m m of
        None \<Rightarrow> capacity_m m = 0
      | Some b \<Rightarrow> capacity_m m \<noteq> 0 \<and> length b = capacity_m m)"

definition Vector_inv :: "'a Vector \<Rightarrow> bool" where
  "Vector_inv v =
     (RawMemory_inv (data_v v) \<and> size_v v \<le> capacity_m (data_v v)
      \<and> list_all (\<lambda>s. s \<noteq> None) (take (size_v v) (GetAddress (data_v v)))
      \<and> list_all (\<lambda>s. s = None) (drop (size_v v) (GetAddress (data_v v))))"

section \<open>Sequences of operations and their reference\<close>

text \<open>
  The calls \<^verbatim>\<open>v.PushBack(x)\<close>, \<^verbatim>\<open>v.Insert(v.begin() + p, x)\<close> and
  \<^verbatim>\<open>v.Erase(v.begin() + p)\<close>, and a sequence of them run on the vector, stopping at the
  first call that does not return.
\<close>

datatype 'a op = Push_back 'a | Insert_at nat 'a | Erase_at nat

definition drop_result :: "('r, 's) outcome \<Rightarrow> (unit, 's) outcome" where
  "drop_result out =
     (case out of Returned r s \<Rightarrow> Returned () s | Thrown s \<Rightarrow> Thrown s | Undefined \<Rightarrow> Undefined)"

fun apply_op :: "'a elem_type \<Rightarrow> 'a op \<Rightarrow> 'a Vector \<Rightarrow> (unit, 'a Vector) outcome" where
  "apply_op T (Push_back x) v = PushBack T (Args x) v"
| "apply_op T (Insert_at p x) v = drop_result (Insert T (begin_v v + p) (Args x) v)"
| "apply_op T (Erase_at p) v = drop_result (Erase (begin_v v + p) v)"

fun run_ops :: "'a elem_type \<Rightarrow> 'a op list \<Rightarrow> 'a Vector \<Rightarrow> (unit, 'a Vector) outcome" where
  "run_ops T [] v = Returned () v"
| "run_ops T (x # xs) v =
     (case apply_op T x v of
        Returned u v' \<Rightarrow> run_ops T xs v'
      | Thrown v' \<Rightarrow> Thrown v'
      | Undefined \<Rightarrow> Undefined)"

text \<open>
  The reference: a list with append, insert-at and remove-at. An offset is valid for an
  insertion up to the length, and for a removal below it.
\<close>

fun reference_op :: "'a op \<Rightarrow> 'a list \<Rightarrow> 'a list option" where
  "reference_op (Push_back x) xs = Some (xs @ [x])"
| "reference_op (Insert_at p x) xs =
     (if p \<le> length xs then Some (take p xs @ [x] @ drop p xs) else None)"
| "reference_op (Erase_at p) xs =
     (if p < length xs then Some (take p xs @ drop (Suc p) xs) else None)"

fun reference_run :: "'a op list \<Rightarrow> 'a list \<Rightarrow> 'a list option" where
  "reference_run [] xs = Some xs"
| "reference_run (x # ops) xs =
     (case reference_op x xs of None \<Rightarrow> None | Some ys \<Rightarrow> reference_run ops ys)"

text \<open>The invariant \<open>length \<le> capacity\<close>, and a property of every state a call can leave.\<close>

definition length_le_capacity :: "'a Vector \<Rightarrow> bool" where
  "length_le_capacity v = (Size v \<le> Capacity v)"

definition leaves :: "('s \<Rightarrow> bool) \<Rightarrow> ('r, 's) outcome \<Rightarrow> bool" where
  "leaves P out =
     (case out of Returned r s \<Rightarrow> P s | Thrown s \<Rightarrow> P s | Undefined \<Rightarrow> True)"

text \<open>A property of the object a constructor call returns.\<close>

definition constructs :: "('r \<Rightarrow> bool) \<Rightarrow> ('r, 's) outcome \<Rightarrow> bool" where
  "constructs P out =
     (case out of Returned r s \<Rightarrow> P r | Thrown s \<Rightarrow> True | Undefined \<Rightarrow> True)"

text \<open>
  The transfer policy in the words of the specification: what the elements of \<open>v\<close> are
  in the old block once they have been transferred, moved from when \<^verbatim>\<open>T\<close> has a
  non-throwing move constructor or no copy constructor, and as they were otherwise.
\<close>

definition originals_after_transfer :: "'a elem_type \<Rightarrow> 'a Vector \<Rightarrow> 'a slot list" where
  "originals_after_transfer T v =
     (if is_nothrow_move_constructible T \<or> \<not> is_copy_constructible T
      then replicate (size_v v) (Some MovedFrom)
      else map Some (elems v))"

section \<open>The loops, cell by cell\<close>

lemma length_uninitialized_move_n [simp]:
  "length (fst (uninitialized_move_n src first n dst d)) = length src"
  "length (snd (uninitialized_move_n src first n dst d)) = length dst"
  by (induction n arbitrary: src first dst d) auto

lemma nth_uninitialized_move_n_src:
  "i < length src \<Longrightarrow>
   fst (uninitialized_move_n src first n dst d) ! i =
     (if first \<le> i \<and> i < first + n then Some MovedFrom else src ! i)"
  by (induction n arbitrary: src first dst d) (auto simp: nth_list_update)

lemma uninitialized_move_n_dst_outside:
  "i < d \<or> d + n \<le> i \<Longrightarrow> snd (uninitialized_move_n src first n dst d) ! i = dst ! i"
  by (induction n arbitrary: src first dst d) auto

lemma uninitialized_move_n_dst_inside:
  "k < n \<Longrightarrow> d + k < length dst \<Longrightarrow>
   snd (uninitialized_move_n src first n dst d) ! (d + k) = src ! (first + k)"
proof (induction n arbitrary: src first dst d k)
  case 0
  then show ?case by simp
next
  case (Suc n)
  show ?case
  proof (cases k)
    case 0
    with Suc.prems show ?thesis
      by (simp add: uninitialized_move_n_dst_outside)
  next
    case (Suc k')
    with Suc.prems Suc.IH [of k' "Suc d" "dst[d := src ! first]" "src[first := Some MovedFrom]" "Suc first"]
    show ?thesis by simp
  qed
qed

lemma nth_uninitialized_move_n_dst:
  assumes "i < length dst"
  shows "snd (uninitialized_move_n src first n dst d) ! i =
     (if d \<le> i \<and> i < d + n then src ! (first + (i - d)) else dst ! i)"
proof (cases "d \<le> i \<and> i < d + n")
  case True
  then have "i - d < n" "d + (i - d) = i" by auto
  with assms uninitialized_move_n_dst_inside [of "i - d" n d dst src first] True
  show ?thesis by simp
next
  case False
  then show ?thesis
    using uninitialized_move_n_dst_outside [of i d n src first dst] by auto
qed

lemma length_uninitialized_copy_n [simp]:
  "length (uninitialized_copy_n src first n dst d) = length dst"
  by (induction n arbitrary: first dst d) auto

lemma uninitialized_copy_n_outside:
  "i < d \<or> d + n \<le> i \<Longrightarrow> uninitialized_copy_n src first n dst d ! i = dst ! i"
  by (induction n arbitrary: first dst d) auto

lemma uninitialized_copy_n_inside:
  "k < n \<Longrightarrow> d + k < length dst \<Longrightarrow>
   uninitialized_copy_n src first n dst d ! (d + k) = src ! (first + k)"
proof (induction n arbitrary: first dst d k)
  case 0
  then show ?case by simp
next
  case (Suc n)
  show ?case
  proof (cases k)
    case 0
    with Suc.prems show ?thesis
      by (simp add: uninitialized_copy_n_outside)
  next
    case (Suc k')
    with Suc.prems Suc.IH [of k' "Suc d" "dst[d := src ! first]" "Suc first"]
    show ?thesis by simp
  qed
qed

lemma nth_uninitialized_copy_n:
  assumes "i < length dst"
  shows "uninitialized_copy_n src first n dst d ! i =
     (if d \<le> i \<and> i < d + n then src ! (first + (i - d)) else dst ! i)"
proof (cases "d \<le> i \<and> i < d + n")
  case True
  then have "i - d < n" "d + (i - d) = i" by auto
  with assms uninitialized_copy_n_inside [of "i - d" n d dst src first] True
  show ?thesis by simp
next
  case False
  then show ?thesis
    using uninitialized_copy_n_outside [of i d n src first dst] by auto
qed

lemma copy_n_eq: "copy_n src first n dst d = uninitialized_copy_n src first n dst d"
  by (induction n arbitrary: first dst d) auto

lemma length_destroy_n [simp]: "length (destroy_n b first n) = length b"
  by (induction n arbitrary: b first) (auto simp: destroy_at_def)


declare std_move.simps [simp del] move_backward.simps [simp del]

lemma length_std_move [simp]: "length (std_move b first l d) = length b"
proof (induction b first l d rule: std_move.induct)
  case (1 b first l d)
  then show ?case by (subst std_move.simps) simp
qed

lemma length_move_backward [simp]: "length (move_backward b first l d) = length b"
proof (induction b first l d rule: move_backward.induct)
  case (1 b first l d)
  then show ?case by (subst move_backward.simps) simp
qed

text \<open>\<^verbatim>\<open>std::move(p + 1, l, p)\<close> shifts a range one cell to the left.\<close>

lemma nth_std_move_left:
  "first = Suc p \<Longrightarrow> i < length b \<Longrightarrow> l \<le> length b \<Longrightarrow>
   std_move b first l p ! i =
     (if p \<le> i \<and> Suc i < l then b ! Suc i
      else if Suc i = l \<and> Suc p < l then Some MovedFrom else b ! i)"
proof (induction b first l p rule: std_move.induct)
  case (1 b first l p)
  show ?case
  proof (cases "first < l")
    case False
    with "1.prems" show ?thesis by (subst std_move.simps) auto
  next
    case True
    have "std_move b first l p ! i =
          std_move (b[p := b ! first, first := Some MovedFrom]) (Suc first) l (Suc p) ! i"
      using True by (subst std_move.simps) simp
    also have "\<dots> = (if Suc p \<le> i \<and> Suc i < l then (b[p := b ! first, first := Some MovedFrom]) ! Suc i
      else if Suc i = l \<and> Suc (Suc p) < l then Some MovedFrom else (b[p := b ! first, first := Some MovedFrom]) ! i)"
      using "1.IH" [OF True] "1.prems" by simp
    also have "\<dots> = (if p \<le> i \<and> Suc i < l then b ! Suc i
      else if Suc i = l \<and> Suc p < l then Some MovedFrom else b ! i)"
      using "1.prems" True by (auto simp: nth_list_update)
    finally show ?thesis .
  qed
qed

text \<open>\<^verbatim>\<open>std::move_backward(p, l, l + 1)\<close> shifts a range one cell to the right.\<close>

lemma move_backward_step:
  "p < Suc l \<Longrightarrow> move_backward b p (Suc l) (Suc (Suc l)) =
     move_backward (b[Suc l := b ! l, l := Some MovedFrom]) p l (Suc l)"
  by (subst move_backward.simps) simp

lemma move_backward_stop: "\<not> p < l \<Longrightarrow> move_backward b p l d = b"
  by (subst move_backward.simps) simp

lemma nth_move_backward_right:
  "i < length b \<Longrightarrow> l < length b \<Longrightarrow>
   move_backward b p l (Suc l) ! i =
     (if p < i \<and> i \<le> l then b ! (i - 1)
      else if i = p \<and> p < l then Some MovedFrom else b ! i)"
proof (induction l arbitrary: b)
  case 0
  then show ?case by (simp add: move_backward_stop)
next
  case (Suc l)
  show ?case
  proof (cases "p < Suc l")
    case False
    then show ?thesis by (auto simp: move_backward_stop)
  next
    case True
    let ?b = "b[Suc l := b ! l, l := Some MovedFrom]"
    have len: "i < length ?b" "l < length ?b" using Suc.prems by simp_all
    have eq: "move_backward b p (Suc l) (Suc (Suc l)) ! i =
       (if p < i \<and> i \<le> l then ?b ! (i - 1)
        else if i = p \<and> p < l then Some MovedFrom else ?b ! i)"
      unfolding move_backward_step [OF True] by (rule Suc.IH [OF len])
    consider "i = Suc l" | "i = l" | "i < l" | "Suc l < i" by linarith
    then show ?thesis
    proof cases
      case 1
      have "?b ! Suc l = b ! l" using Suc.prems by simp
      with 1 True eq show ?thesis by simp
    next
      case 2
      have a: "?b ! l = Some MovedFrom" using Suc.prems by simp
      have b: "?b ! (l - 1) = b ! (l - 1)" if "0 < l" using that by simp
      show ?thesis
      proof (cases "p < l")
        case True
        with 2 eq b show ?thesis by simp
      next
        case False
        with True have "p = l" by simp
        with 2 eq a show ?thesis by simp
      qed
    next
      case 3
      then have "?b ! i = b ! i" "?b ! (i - 1) = b ! (i - 1)" by simp_all
      with 3 eq show ?thesis by simp
    next
      case 4
      then have "?b ! i = b ! i" by simp
      with 4 True eq show ?thesis by simp
    qed
  qed
qed

section \<open>The representation\<close>

lemma capacity_store [simp]: "capacity_m (store m b) = capacity_m m"
  by (simp add: store_def)

lemma RawMemory_inv_length: "RawMemory_inv m \<Longrightarrow> length (GetAddress m) = capacity_m m"
  by (auto simp: RawMemory_inv_def GetAddress_def split: option.splits)

lemma RawMemory_inv_store:
  "RawMemory_inv m \<Longrightarrow> length b = capacity_m m \<Longrightarrow> RawMemory_inv (store m b)"
  by (auto simp: RawMemory_inv_def store_def split: option.splits)

lemma GetAddress_store:
  "RawMemory_inv m \<Longrightarrow> length b = capacity_m m \<Longrightarrow> GetAddress (store m b) = b"
  by (auto simp: RawMemory_inv_def store_def GetAddress_def split: option.splits)

lemma RawMemory_inv_new [simp]: "RawMemory_inv (RawMemory_new n)"
  by (simp add: RawMemory_inv_def RawMemory_new_def)

lemma GetAddress_new [simp]: "GetAddress (RawMemory_new n) = replicate n None"
  by (simp add: GetAddress_def RawMemory_new_def)

lemma capacity_new [simp]: "capacity_m (RawMemory_new n) = n"
  by (simp add: RawMemory_new_def)

lemma RawMemory_Swap_eq [simp]: "RawMemory_Swap (a :: 'a RawMemory) b = (b, a)"
  by (simp add: RawMemory_Swap_def)

lemma Vector_inv_iff:
  "Vector_inv v \<longleftrightarrow>
     RawMemory_inv (data_v v) \<and> size_v v \<le> capacity_m (data_v v)
     \<and> (\<forall>i < size_v v. GetAddress (data_v v) ! i \<noteq> None)
     \<and> (\<forall>i. size_v v \<le> i \<and> i < capacity_m (data_v v) \<longrightarrow> GetAddress (data_v v) ! i = None)"
proof (cases "RawMemory_inv (data_v v) \<and> size_v v \<le> capacity_m (data_v v)")
  case False
  then show ?thesis by (auto simp: Vector_inv_def)
next
  case True
  then have len: "length (GetAddress (data_v v)) = capacity_m (data_v v)"
    by (simp add: RawMemory_inv_length)
  have a: "list_all (\<lambda>s. s \<noteq> None) (take (size_v v) (GetAddress (data_v v)))
        \<longleftrightarrow> (\<forall>i < size_v v. GetAddress (data_v v) ! i \<noteq> None)"
    using True len by (simp add: list_all_length)
  have b: "list_all (\<lambda>s. s = None) (drop (size_v v) (GetAddress (data_v v)))
        \<longleftrightarrow> (\<forall>i. size_v v \<le> i \<and> i < capacity_m (data_v v) \<longrightarrow> GetAddress (data_v v) ! i = None)"
  proof
    assume h: "list_all (\<lambda>s. s = None) (drop (size_v v) (GetAddress (data_v v)))"
    show "\<forall>i. size_v v \<le> i \<and> i < capacity_m (data_v v) \<longrightarrow> GetAddress (data_v v) ! i = None"
    proof (intro allI impI)
      fix i assume i: "size_v v \<le> i \<and> i < capacity_m (data_v v)"
      then have "i - size_v v < length (drop (size_v v) (GetAddress (data_v v)))"
        using len by auto
      with h have "drop (size_v v) (GetAddress (data_v v)) ! (i - size_v v) = None"
        by (simp add: list_all_length)
      with i len show "GetAddress (data_v v) ! i = None" by simp
    qed
  next
    assume "\<forall>i. size_v v \<le> i \<and> i < capacity_m (data_v v) \<longrightarrow> GetAddress (data_v v) ! i = None"
    then show "list_all (\<lambda>s. s = None) (drop (size_v v) (GetAddress (data_v v)))"
      using len by (simp add: list_all_length)
  qed
  show ?thesis using True a b by (simp add: Vector_inv_def)
qed

lemma Vector_inv_raw: "Vector_inv v \<Longrightarrow> RawMemory_inv (data_v v)"
  by (simp add: Vector_inv_def)

lemma Vector_inv_le: "Vector_inv v \<Longrightarrow> size_v v \<le> capacity_m (data_v v)"
  by (simp add: Vector_inv_def)

lemma Vector_inv_length: "Vector_inv v \<Longrightarrow> length (GetAddress (data_v v)) = capacity_m (data_v v)"
  by (simp add: Vector_inv_def RawMemory_inv_length)

lemma Vector_inv_rest:
  "Vector_inv v \<Longrightarrow> size_v v \<le> i \<Longrightarrow> i < capacity_m (data_v v) \<Longrightarrow> GetAddress (data_v v) ! i = None"
  using Vector_inv_iff [of v] by blast

lemma length_elems: "Vector_inv v \<Longrightarrow> length (elems v) = size_v v"
  by (simp add: elems_def Vector_inv_iff RawMemory_inv_length)

lemma nth_elems:
  "Vector_inv v \<Longrightarrow> i < size_v v \<Longrightarrow> GetAddress (data_v v) ! i = Some (elems v ! i)"
  by (auto simp: elems_def Vector_inv_iff RawMemory_inv_length)

lemma elems_eqI:
  assumes "length xs = size_v v" "size_v v \<le> length (GetAddress (data_v v))"
    and "\<And>i. i < size_v v \<Longrightarrow> GetAddress (data_v v) ! i = Some (xs ! i)"
  shows "elems v = xs"
  using assms by (intro nth_equalityI) (auto simp: elems_def)

lemma length_Transfer [simp]:
  "length (fst (TransferDataToNewHeap T src first n dst d)) = length src"
  "length (snd (TransferDataToNewHeap T src first n dst d)) = length dst"
  by (simp_all add: TransferDataToNewHeap_def)

lemma nth_Transfer_dst:
  "i < length dst \<Longrightarrow>
   snd (TransferDataToNewHeap T src first n dst d) ! i =
     (if d \<le> i \<and> i < d + n then src ! (first + (i - d)) else dst ! i)"
  by (simp add: TransferDataToNewHeap_def nth_uninitialized_move_n_dst nth_uninitialized_copy_n)

section \<open>Insertion at the end\<close>

lemma EmplaceBack_Returned:
  assumes inv: "Vector_inv v" and c: "construct args (GetAddress (data_v v)) = Built x"
  shows "\<exists>v'. EmplaceBack T args v = Returned (size_v v) v' \<and> Vector_inv v'
           \<and> elems v' = elems v @ [x] \<and> size_v v' = Suc (size_v v)
           \<and> capacity_m (data_v v') =
               (if size_v v = capacity_m (data_v v)
                then (if size_v v = 0 then 1 else size_v v * 2) else capacity_m (data_v v))"
proof -
  let ?b = "GetAddress (data_v v)" and ?n = "size_v v"
  note rinv = Vector_inv_raw [OF inv] and le = Vector_inv_le [OF inv]
    and live = nth_elems [OF inv] and raw = Vector_inv_rest [OF inv]
    and len = Vector_inv_length [OF inv] and lenE = length_elems [OF inv]
  show ?thesis
  proof (cases "?n = capacity_m (data_v v)")
    case True
    let ?c = "if ?n = 0 then 1 else ?n * 2"
    let ?new0 = "(replicate ?c None)[?n := Some x]"
    let ?tr = "TransferDataToNewHeap T ?b 0 ?n ?new0 0"
    let ?v' = "v\<lparr>data_v := store (RawMemory_new ?c) (snd ?tr), size_v := ?n + 1\<rparr>"
    have lt: "?n < ?c" by simp
    have run: "EmplaceBack T args v = Returned ?n ?v'"
      using True c by (simp add: EmplaceBack_def EmplaceBack_traced_def Let_def return_back_def split_beta)
    have ga: "GetAddress (data_v ?v') = snd ?tr"
      by (simp add: GetAddress_store)
    have nth: "snd ?tr ! i = (if i < ?n then ?b ! i else if i = ?n then Some x else None)"
      if "i < ?c" for i
      using that by (simp add: nth_Transfer_dst nth_list_update)
    have inv': "Vector_inv ?v'"
      unfolding Vector_inv_iff ga
    proof (intro conjI allI impI)
      show "RawMemory_inv (data_v ?v')" by (simp add: RawMemory_inv_store)
      show "size_v ?v' \<le> capacity_m (data_v ?v')" using lt by simp
      fix i
      show "snd ?tr ! i \<noteq> None" if "i < size_v ?v'"
        using that nth [of i] lt live [of i] by (cases "i < ?n") auto
      show "snd ?tr ! i = None" if "size_v ?v' \<le> i \<and> i < capacity_m (data_v ?v')"
        using that nth [of i] by simp
    qed
    have el: "elems ?v' = elems v @ [x]"
    proof (rule elems_eqI)
      show "length (elems v @ [x]) = size_v ?v'" using lenE by simp
      show "size_v ?v' \<le> length (GetAddress (data_v ?v'))" unfolding ga using lt by simp
      fix i assume "i < size_v ?v'"
      then show "GetAddress (data_v ?v') ! i = Some ((elems v @ [x]) ! i)"
        unfolding ga using nth [of i] lt live [of i] lenE by (cases "i < ?n") (auto simp: nth_append)
    qed
    show ?thesis using run inv' el True by simp
  next
    case False
    with le have lt: "?n < capacity_m (data_v v)" by simp
    let ?b' = "?b[?n := Some x]"
    let ?v' = "v\<lparr>data_v := store (data_v v) ?b', size_v := ?n + 1\<rparr>"
    have run: "EmplaceBack T args v = Returned ?n ?v'"
      using False c lt by (simp add: EmplaceBack_def EmplaceBack_traced_def Let_def return_back_def)
    have ga: "GetAddress (data_v ?v') = ?b'"
      using rinv len by (simp add: GetAddress_store)
    have inv': "Vector_inv ?v'"
      unfolding Vector_inv_iff ga
    proof (intro conjI allI impI)
      show "RawMemory_inv (data_v ?v')" using rinv len by (simp add: RawMemory_inv_store)
      show "size_v ?v' \<le> capacity_m (data_v ?v')" using lt by simp
      fix i
      show "?b' ! i \<noteq> None" if "i < size_v ?v'"
        using that lt len live [of i] by (cases "i < ?n") (auto simp: nth_list_update)
      show "?b' ! i = None" if "size_v ?v' \<le> i \<and> i < capacity_m (data_v ?v')"
        using that raw [of i] by simp
    qed
    have el: "elems ?v' = elems v @ [x]"
    proof (rule elems_eqI)
      show "length (elems v @ [x]) = size_v ?v'" using lenE by simp
      show "size_v ?v' \<le> length (GetAddress (data_v ?v'))" unfolding ga using lt len by simp
      fix i assume "i < size_v ?v'"
      then show "GetAddress (data_v ?v') ! i = Some ((elems v @ [x]) ! i)"
        unfolding ga using lt live [of i] lenE len by (cases "i < ?n") (auto simp: nth_append nth_list_update)
    qed
    show ?thesis using run inv' el False by simp
  qed
qed

section \<open>Insertion at a position\<close>

lemma nth_Transfer_src_outside:
  "i < length src \<Longrightarrow> i < first \<or> first + n \<le> i \<Longrightarrow>
   fst (TransferDataToNewHeap T src first n dst d) ! i = src ! i"
  by (auto simp: TransferDataToNewHeap_def nth_uninitialized_move_n_src)

lemma nth_insert_at:
  "pos \<le> length xs \<Longrightarrow> i \<le> length xs \<Longrightarrow>
   (take pos xs @ [x] @ drop pos xs) ! i =
     (if i < pos then xs ! i else if i = pos then x else xs ! (i - 1))"
proof -
  assume h: "pos \<le> length xs" "i \<le> length xs"
  consider "i < pos" | "i = pos" | "pos < i" by linarith
  then show ?thesis
  proof cases
    case 1 then show ?thesis using h by (simp add: nth_append)
  next
    case 2 then show ?thesis using h by (simp add: nth_append)
  next
    case 3
    then obtain k where k: "i = Suc (pos + k)" by (metis less_iff_Suc_add)
    then show ?thesis using h by (simp add: nth_append)
  qed
qed

lemma nth_remove_at:
  "pos < length xs \<Longrightarrow> Suc i < length xs \<Longrightarrow>
   (take pos xs @ drop (Suc pos) xs) ! i = (if i < pos then xs ! i else xs ! Suc i)"
  by (auto simp: nth_append min_def)

lemma inserted_cells:
  assumes inv: "Vector_inv v" and pos: "pos \<le> size_v v"
    and rinv: "RawMemory_inv (data_v v')" and sz: "size_v v' = Suc (size_v v)"
    and cap: "size_v v < capacity_m (data_v v')"
    and cells: "\<And>i. i < capacity_m (data_v v') \<Longrightarrow>
       GetAddress (data_v v') ! i =
         (if i < pos then GetAddress (data_v v) ! i
          else if i = pos then Some x
          else if i \<le> size_v v then GetAddress (data_v v) ! (i - 1)
          else None)"
  shows "Vector_inv v' \<and> elems v' = take pos (elems v) @ [x] @ drop pos (elems v)"
proof
  note live = nth_elems [OF inv] and lenE = length_elems [OF inv]
  show "Vector_inv v'"
    unfolding Vector_inv_iff
  proof (intro conjI allI impI)
    show "RawMemory_inv (data_v v')" by (rule rinv)
    show "size_v v' \<le> capacity_m (data_v v')" using sz cap by simp
    fix i
    show "GetAddress (data_v v') ! i \<noteq> None" if "i < size_v v'"
    proof -
      have i: "i < capacity_m (data_v v')" "i \<le> size_v v" using that sz cap by simp_all
      consider "i < pos" | "i = pos" | "pos < i" by linarith
      then show ?thesis
      proof cases
        case 1 then show ?thesis using cells [OF i(1)] live [of i] pos by simp
      next
        case 2 then show ?thesis using cells [OF i(1)] by simp
      next
        case 3 then show ?thesis using cells [OF i(1)] live [of "i - 1"] i(2) by simp
      qed
    qed
    show "GetAddress (data_v v') ! i = None"
      if "size_v v' \<le> i \<and> i < capacity_m (data_v v')"
      using that cells [of i] sz pos by simp
  qed
  show "elems v' = take pos (elems v) @ [x] @ drop pos (elems v)"
  proof (rule elems_eqI)
    show "length (take pos (elems v) @ [x] @ drop pos (elems v)) = size_v v'"
      using lenE pos sz by simp
    show "size_v v' \<le> length (GetAddress (data_v v'))"
      using sz cap by (simp add: RawMemory_inv_length [OF rinv])
    fix i assume "i < size_v v'"
    then have i: "i < capacity_m (data_v v')" "i \<le> size_v v" using sz cap by simp_all
    have r: "(take pos (elems v) @ [x] @ drop pos (elems v)) ! i =
        (if i < pos then elems v ! i else if i = pos then x else elems v ! (i - 1))"
      using pos i(2) lenE by (intro nth_insert_at) simp_all
    consider "i < pos" | "i = pos" | "pos < i" by linarith
    then show "GetAddress (data_v v') ! i = Some ((take pos (elems v) @ [x] @ drop pos (elems v)) ! i)"
    proof cases
      case 1 then show ?thesis unfolding r using cells [OF i(1)] live [of i] pos by simp
    next
      case 2 then show ?thesis unfolding r using cells [OF i(1)] by simp
    next
      case 3 then show ?thesis unfolding r using cells [OF i(1)] live [of "i - 1"] i(2) by simp
    qed
  qed
qed

lemma uninitialized_move_1_within:
  "uninitialized_move_n_within b first 1 d = b[d := b ! first, first := Some MovedFrom]"
  by simp

lemma Emplace_Returned:
  assumes inv: "Vector_inv v" and pos: "pos \<le> size_v v"
    and c: "construct args (GetAddress (data_v v)) = Built x"
  shows "\<exists>v'. Emplace T pos args v = Returned pos v' \<and> Vector_inv v'
           \<and> elems v' = take pos (elems v) @ [x] @ drop pos (elems v)
           \<and> size_v v' = Suc (size_v v)
           \<and> capacity_m (data_v v') =
               (if size_v v = capacity_m (data_v v)
                then (if size_v v = 0 then 1 else size_v v * 2) else capacity_m (data_v v))"
proof -
  let ?b = "GetAddress (data_v v)" and ?n = "size_v v"
  note rinv = Vector_inv_raw [OF inv] and le = Vector_inv_le [OF inv]
    and raw = Vector_inv_rest [OF inv]
    and len = Vector_inv_length [OF inv] and lenE = length_elems [OF inv]
  consider (atend) "pos = ?n" | (grow) "pos < ?n" "?n = capacity_m (data_v v)"
    | (shift) "pos < ?n" "?n < capacity_m (data_v v)"
    using pos le by linarith
  then show ?thesis
  proof cases
    case atend
    from EmplaceBack_Returned [OF inv c, of T] obtain v' where
      v': "EmplaceBack T args v = Returned ?n v'" "Vector_inv v'" "elems v' = elems v @ [x]"
        "size_v v' = Suc ?n"
        "capacity_m (data_v v') = (if ?n = capacity_m (data_v v)
                then (if ?n = 0 then 1 else ?n * 2) else capacity_m (data_v v))"
      by blast
    have "Emplace T pos args v = Returned pos v'"
      using atend v'(1)
      by (simp add: Emplace_def Emplace_traced_def EmplaceBack_def cbegin_def cend_def
          begin_v_def end_v_def split_beta)
    moreover have "take pos (elems v) @ [x] @ drop pos (elems v) = elems v @ [x]"
      using atend lenE by simp
    ultimately show ?thesis using v' by simp
  next
    case grow
    let ?c = "if ?n = 0 then 1 else ?n * 2"
    let ?new0 = "(replicate ?c None)[pos := Some x]"
    let ?tr1 = "TransferDataToNewHeap T ?b 0 pos ?new0 0"
    let ?tr2 = "TransferDataToNewHeap T (fst ?tr1) pos (?n - pos) (snd ?tr1) (pos + 1)"
    let ?v' = "v\<lparr>data_v := store (RawMemory_new ?c) (snd ?tr2), size_v := ?n + 1\<rparr>"
    have lt: "?n < ?c" by simp
    have run: "Emplace T pos args v = Returned pos ?v'"
      using grow c
      by (simp add: Emplace_def Emplace_traced_def cbegin_def cend_def begin_v_def end_v_def Let_def split_beta)
    have ga: "GetAddress (data_v ?v') = snd ?tr2"
      by (simp add: GetAddress_store)
    have nth: "snd ?tr2 ! i =
         (if i < pos then ?b ! i else if i = pos then Some x
          else if i \<le> ?n then ?b ! (i - 1) else None)"
      if "i < ?c" for i
    proof -
      consider "i < pos" | "i = pos" | "pos < i" "i \<le> ?n" | "?n < i" using grow(1) by linarith
      then show ?thesis
      proof cases
        case 1 then show ?thesis using that by (simp add: nth_Transfer_dst)
      next
        case 2 then show ?thesis using that by (simp add: nth_Transfer_dst)
      next
        case 3
        then have "fst ?tr1 ! (i - 1) = ?b ! (i - 1)"
          using len grow(2) by (intro nth_Transfer_src_outside) simp_all
        moreover have "pos + (i - Suc pos) = i - 1" using 3 by simp
        ultimately show ?thesis using that 3 by (simp add: nth_Transfer_dst)
      next
        case 4 then show ?thesis using that grow(1) by (simp add: nth_Transfer_dst)
      qed
    qed
    have "Vector_inv ?v' \<and> elems ?v' = take pos (elems v) @ [x] @ drop pos (elems v)"
    proof (rule inserted_cells [OF inv pos])
      show "RawMemory_inv (data_v ?v')" by (simp add: RawMemory_inv_store)
      show "size_v ?v' = Suc ?n" by simp
      show "?n < capacity_m (data_v ?v')" using lt by simp
      fix i assume "i < capacity_m (data_v ?v')"
      then have "i < ?c" by simp
      from nth [OF this] show "GetAddress (data_v ?v') ! i =
         (if i < pos then ?b ! i else if i = pos then Some x
          else if i \<le> ?n then ?b ! (i - 1) else None)"
        unfolding ga .
    qed
    then show ?thesis using run grow(2) by simp
  next
    case shift
    let ?b1 = "?b[?n := ?b ! (?n - 1), ?n - 1 := Some MovedFrom]"
    let ?b2 = "move_backward ?b1 pos (?n - 1) ?n"
    let ?b3 = "?b2[pos := Some x]"
    let ?v' = "v\<lparr>data_v := store (data_v v) ?b3, size_v := ?n + 1\<rparr>"
    have run: "Emplace T pos args v = Returned pos ?v'"
      using shift c
      by (simp add: Emplace_def Emplace_traced_def cbegin_def cend_def begin_v_def end_v_def Let_def
          uninitialized_move_1_within)
    have ga: "GetAddress (data_v ?v') = ?b3"
      using rinv len by (simp add: GetAddress_store)
    have n: "?n = Suc (?n - 1)" using shift(1) by simp
    have b2: "?b2 ! i = (if pos < i \<and> i \<le> ?n - 1 then ?b1 ! (i - 1)
               else if i = pos \<and> pos < ?n - 1 then Some MovedFrom else ?b1 ! i)"
      if "i < capacity_m (data_v v)" for i
    proof -
      have "move_backward ?b1 pos (?n - 1) (Suc (?n - 1)) ! i =
          (if pos < i \<and> i \<le> ?n - 1 then ?b1 ! (i - 1)
               else if i = pos \<and> pos < ?n - 1 then Some MovedFrom else ?b1 ! i)"
        using that len shift by (intro nth_move_backward_right) simp_all
      then show ?thesis using n by simp
    qed
    have nth: "?b3 ! i =
         (if i < pos then ?b ! i else if i = pos then Some x
          else if i \<le> ?n then ?b ! (i - 1) else None)"
      if "i < capacity_m (data_v v)" for i
    proof -
      consider "i < pos" | "i = pos" | "pos < i" "i < ?n" | "i = ?n" | "?n < i"
        using shift(1) by linarith
      then show ?thesis
      proof cases
        case 1
        then have "?b3 ! i = ?b2 ! i" by simp
        also have "\<dots> = ?b1 ! i" using b2 [OF that] 1 by simp
        also have "\<dots> = ?b ! i" using 1 shift(1) by simp
        finally show ?thesis using 1 by simp
      next
        case 2 then show ?thesis using that len by simp
      next
        case 3
        then have le: "i \<le> ?n - 1" by simp
        from 3 have "?b3 ! i = ?b2 ! i" by simp
        also have "\<dots> = ?b1 ! (i - 1)" using b2 [OF that] 3(1) le by simp
        also have "\<dots> = ?b ! (i - 1)" using 3 by simp
        finally show ?thesis using 3 by simp
      next
        case 4
        then have nle: "\<not> i \<le> ?n - 1" "i \<noteq> pos" using shift(1) by simp_all
        from 4 shift(1) have "?b3 ! i = ?b2 ! i" by simp
        also have "\<dots> = ?b1 ! i" using b2 [OF that] nle by simp
        also have "\<dots> = ?b ! (?n - 1)" using 4 shift len by simp
        finally show ?thesis using 4 shift(1) by simp
      next
        case 5
        then have nle: "\<not> i \<le> ?n - 1" "i \<noteq> pos" using shift(1) by simp_all
        from 5 shift(1) have "?b3 ! i = ?b2 ! i" by simp
        also have "\<dots> = ?b1 ! i" using b2 [OF that] nle by simp
        also have "\<dots> = ?b ! i" using 5 by simp
        also have "\<dots> = None" using raw [of i] 5 that by simp
        finally show ?thesis using 5 shift(1) by simp
      qed
    qed
    have "Vector_inv ?v' \<and> elems ?v' = take pos (elems v) @ [x] @ drop pos (elems v)"
    proof (rule inserted_cells [OF inv pos])
      show "RawMemory_inv (data_v ?v')" using rinv len by (simp add: RawMemory_inv_store)
      show "size_v ?v' = Suc ?n" by simp
      show "?n < capacity_m (data_v ?v')" using shift by simp
      fix i assume "i < capacity_m (data_v ?v')"
      then have "i < capacity_m (data_v v)" by simp
      from nth [OF this] show "GetAddress (data_v ?v') ! i =
         (if i < pos then ?b ! i else if i = pos then Some x
          else if i \<le> ?n then ?b ! (i - 1) else None)"
        unfolding ga .
    qed
    then show ?thesis using run shift(2) by simp
  qed
qed

section \<open>Removal\<close>

lemma store_store [simp]: "store (store m b) b' = store m b'"
  by (simp add: store_def split: option.splits)

lemma PopBack_Returned:
  assumes inv: "Vector_inv v" and pos: "0 < size_v v"
  shows "\<exists>v'. PopBack v = Returned () v' \<and> Vector_inv v'
           \<and> elems v' = butlast (elems v) \<and> size_v v' = size_v v - 1
           \<and> capacity_m (data_v v') = capacity_m (data_v v)"
proof -
  let ?b = "GetAddress (data_v v)" and ?n = "size_v v"
  note rinv = Vector_inv_raw [OF inv] and le = Vector_inv_le [OF inv]
    and raw = Vector_inv_rest [OF inv] and live = nth_elems [OF inv]
    and len = Vector_inv_length [OF inv] and lenE = length_elems [OF inv]
  let ?b' = "?b[?n - 1 := None]"
  let ?v' = "v\<lparr>data_v := store (data_v v) ?b', size_v := ?n - 1\<rparr>"
  have run: "PopBack v = Returned () ?v'"
    using pos by (simp add: PopBack_def destroy_at_def)
  have ga: "GetAddress (data_v ?v') = ?b'"
    using rinv len by (simp add: GetAddress_store)
  have inv': "Vector_inv ?v'"
    unfolding Vector_inv_iff ga
  proof (intro conjI allI impI)
    show "RawMemory_inv (data_v ?v')" using rinv len by (simp add: RawMemory_inv_store)
    show "size_v ?v' \<le> capacity_m (data_v ?v')" using le by simp
    fix i
    show "?b' ! i \<noteq> None" if "i < size_v ?v'"
      using that live [of i] by simp
    show "?b' ! i = None" if "size_v ?v' \<le> i \<and> i < capacity_m (data_v ?v')"
      using that raw [of i] len pos by (cases "i = ?n - 1") auto
  qed
  have el: "elems ?v' = butlast (elems v)"
  proof (rule elems_eqI)
    show "length (butlast (elems v)) = size_v ?v'" using lenE by simp
    show "size_v ?v' \<le> length (GetAddress (data_v ?v'))" unfolding ga using le len by simp
    fix i assume "i < size_v ?v'"
    then show "GetAddress (data_v ?v') ! i = Some (butlast (elems v) ! i)"
      unfolding ga using live [of i] lenE by (simp add: nth_butlast)
  qed
  show ?thesis using run inv' el by simp
qed

lemma Erase_Returned:
  assumes inv: "Vector_inv v" and pos: "pos < size_v v"
  shows "\<exists>v'. Erase pos v = Returned pos v' \<and> Vector_inv v'
           \<and> elems v' = take pos (elems v) @ drop (Suc pos) (elems v)
           \<and> size_v v' = size_v v - 1
           \<and> capacity_m (data_v v') = capacity_m (data_v v)"
proof -
  let ?b = "GetAddress (data_v v)" and ?n = "size_v v"
  note rinv = Vector_inv_raw [OF inv] and le = Vector_inv_le [OF inv]
    and raw = Vector_inv_rest [OF inv] and live = nth_elems [OF inv]
    and len = Vector_inv_length [OF inv] and lenE = length_elems [OF inv]
  let ?b1 = "std_move ?b (Suc pos) ?n pos"
  let ?b' = "?b1[?n - 1 := None]"
  let ?v' = "v\<lparr>data_v := store (data_v v) ?b', size_v := ?n - 1\<rparr>"
  have rinv1: "RawMemory_inv (store (data_v v) ?b1)"
    using rinv len by (simp add: RawMemory_inv_store)
  have run: "Erase pos v = Returned pos ?v'"
    using pos rinv len
    by (simp add: Erase_def PopBack_def destroy_at_def cbegin_def cend_def begin_v_def
        end_v_def Let_def GetAddress_store)
  have ga: "GetAddress (data_v ?v') = ?b'"
    using rinv len by (simp add: GetAddress_store)
  have b1: "?b1 ! i = (if pos \<le> i \<and> Suc i < ?n then ?b ! Suc i
      else if Suc i = ?n \<and> Suc pos < ?n then Some MovedFrom else ?b ! i)"
    if "i < capacity_m (data_v v)" for i
    using that len le by (intro nth_std_move_left) simp_all
  have nth: "?b' ! i = (if i < pos then ?b ! i else if Suc i < ?n then ?b ! Suc i else None)"
    if "i < capacity_m (data_v v)" for i
  proof -
    consider "i < pos" | "pos \<le> i" "Suc i < ?n" | "Suc i = ?n" | "?n \<le> i" by linarith
    then show ?thesis
    proof cases
      case 1
      then have "?b' ! i = ?b1 ! i" using pos by simp
      then show ?thesis using b1 [OF that] 1 pos by simp
    next
      case 2
      then have "?b' ! i = ?b1 ! i" by simp
      then show ?thesis using b1 [OF that] 2 by simp
    next
      case 3
      then have "?n - 1 = i" by simp
      then have "?b' ! i = None" using that len by simp
      then show ?thesis using 3 pos by simp
    next
      case 4
      then have "?b' ! i = ?b1 ! i" using pos by simp
      also have "\<dots> = ?b ! i" using b1 [OF that] 4 by simp
      also have "\<dots> = None" using raw [of i] 4 that by simp
      finally show ?thesis using 4 pos by simp
    qed
  qed
  have inv': "Vector_inv ?v'"
    unfolding Vector_inv_iff ga
  proof (intro conjI allI impI)
    show "RawMemory_inv (data_v ?v')" using rinv len by (simp add: RawMemory_inv_store)
    show "size_v ?v' \<le> capacity_m (data_v ?v')" using le by simp
    fix i
    show "?b' ! i \<noteq> None" if "i < size_v ?v'"
    proof -
      have i: "i < capacity_m (data_v v)" "Suc i < ?n" using that le by simp_all
      show ?thesis using nth [OF i(1)] i(2) live [of i] live [of "Suc i"] by (cases "i < pos") simp_all
    qed
    show "?b' ! i = None" if "size_v ?v' \<le> i \<and> i < capacity_m (data_v ?v')"
    proof -
      have i: "i < capacity_m (data_v v)" "\<not> Suc i < ?n" "\<not> i < pos" using that pos by auto
      show ?thesis using nth [OF i(1)] i(2,3) by simp
    qed
  qed
  have el: "elems ?v' = take pos (elems v) @ drop (Suc pos) (elems v)"
  proof (rule elems_eqI)
    show "length (take pos (elems v) @ drop (Suc pos) (elems v)) = size_v ?v'"
      using lenE pos by simp
    show "size_v ?v' \<le> length (GetAddress (data_v ?v'))" unfolding ga using le len by simp
    fix i assume "i < size_v ?v'"
    then have i: "i < capacity_m (data_v v)" "Suc i < ?n" using le by simp_all
    have r: "(take pos (elems v) @ drop (Suc pos) (elems v)) ! i =
        (if i < pos then elems v ! i else elems v ! Suc i)"
      using pos i(2) lenE by (intro nth_remove_at) simp_all
    show "GetAddress (data_v ?v') ! i = Some ((take pos (elems v) @ drop (Suc pos) (elems v)) ! i)"
      unfolding ga r using nth [OF i(1)] i(2) live [of i] live [of "Suc i"]
      by (cases "i < pos") simp_all
  qed
  show ?thesis using run inv' el by simp
qed

section \<open>Sequences of operations against the reference list\<close>

lemma Vector_inv_default: "Vector_inv Vector_default"
  by (simp add: Vector_inv_def Vector_default_def RawMemory_inv_def RawMemory_default_def
      GetAddress_def)

lemma elems_default: "elems Vector_default = []"
  by (simp add: elems_def Vector_default_def)

lemma construct_Args [simp]: "construct (Args x) b = Built (Val x)"
  by (simp add: construct_def)

lemma construct_Alias:
  "Vector_inv v \<Longrightarrow> i < size_v v \<Longrightarrow>
   construct (Alias i) (GetAddress (data_v v)) = Built (elems v ! i)"
  using nth_elems [of v i] Vector_inv_le [of v] Vector_inv_length [of v]
  by (simp add: construct_def)

lemma apply_op_refines:
  assumes inv: "Vector_inv v" and el: "elems v = map Val xs"
    and ref: "reference_op x xs = Some ys"
  shows "\<exists>v'. apply_op T x v = Returned () v' \<and> Vector_inv v' \<and> elems v' = map Val ys"
proof (cases x)
  case (Push_back a)
  from EmplaceBack_Returned [OF inv construct_Args, of T a] obtain v' where
    "EmplaceBack T (Args a) v = Returned (size_v v) v'" "Vector_inv v'"
    "elems v' = elems v @ [Val a]"
    by blast
  with Push_back el ref show ?thesis by (auto simp: PushBack_def)
next
  case (Insert_at p a)
  with ref have p: "p \<le> length xs" and ys: "ys = take p xs @ [a] @ drop p xs"
    by (auto split: if_splits)
  have "p \<le> size_v v" using p el length_elems [OF inv] by simp
  from Emplace_Returned [OF inv this construct_Args, of T a] obtain v' where
    "Emplace T p (Args a) v = Returned p v'" "Vector_inv v'"
    "elems v' = take p (elems v) @ [Val a] @ drop p (elems v)"
    by blast
  with Insert_at el ys show ?thesis
    by (simp add: Insert_def drop_result_def begin_v_def take_map drop_map)
next
  case (Erase_at p)
  with ref have p: "p < length xs" and ys: "ys = take p xs @ drop (Suc p) xs"
    by (auto split: if_splits)
  have "p < size_v v" using p el length_elems [OF inv] by simp
  from Erase_Returned [OF inv this] obtain v' where
    "Erase p v = Returned p v'" "Vector_inv v'"
    "elems v' = take p (elems v) @ drop (Suc p) (elems v)"
    by blast
  with Erase_at el ys show ?thesis
    by (simp add: drop_result_def begin_v_def take_map drop_map)
qed

lemma run_ops_refines:
  "Vector_inv v \<Longrightarrow> elems v = map Val xs \<Longrightarrow> reference_run ops xs = Some ys \<Longrightarrow>
   \<exists>v'. run_ops T ops v = Returned () v' \<and> Vector_inv v' \<and> elems v' = map Val ys"
proof (induction ops arbitrary: v xs)
  case Nil
  then show ?case by simp
next
  case (Cons x ops)
  from Cons.prems(3) obtain zs where zs: "reference_op x xs = Some zs"
    and rest: "reference_run ops zs = Some ys"
    by (auto split: option.splits)
  from apply_op_refines [OF Cons.prems(1,2) zs, of T] obtain v1 where
    v1: "apply_op T x v = Returned () v1" "Vector_inv v1" "elems v1 = map Val zs"
    by blast
  from Cons.IH [OF v1(2,3) rest] v1(1) show ?case by simp
qed

text \<open>
  Claim C1. Every sequence of \<^verbatim>\<open>PushBack\<close>, \<^verbatim>\<open>Insert\<close> at a valid offset and \<^verbatim>\<open>Erase\<close> at a
  valid offset, run on an empty vector, returns, and the traversal from \<^verbatim>\<open>begin()\<close> to
  \<^verbatim>\<open>end()\<close> then shows the list the reference builds with append, insert-at and
  remove-at applied in the same order.
\<close>

theorem traversal_matches_reference:
  "reference_run ops [] = Some ys \<Longrightarrow>
   \<exists>v. run_ops T ops Vector_default = Returned () v \<and> elems v = map Val ys"
  using run_ops_refines [OF Vector_inv_default, of "[]" ops ys T]
  by (auto simp: elems_default)

theorem traversal_matches_reference_witness:
  "reference_run [Push_back 1, Push_back 2, Push_back 3, Erase_at 1, Insert_at 0 0] []
     = Some [0, 1, 3 :: nat]
   \<and> (\<exists>v. run_ops \<lparr>is_nothrow_move_constructible = False, is_copy_constructible = True,
                     value_init = 0\<rparr>
             [Push_back 1, Push_back 2, Push_back 3, Erase_at 1, Insert_at 0 0] Vector_default
             = Returned () v
          \<and> elems v = map Val [0, 1, 3 :: nat])"
proof -
  have h: "reference_run [Push_back 1, Push_back 2, Push_back 3, Erase_at 1, Insert_at 0 0] []
     = Some [0, 1, 3 :: nat]"
    by simp
  show ?thesis using h traversal_matches_reference [OF h] by blast
qed

section \<open>A throwing constructor in the growth path\<close>

text \<open>
  Claim C2. When \<^verbatim>\<open>EmplaceBack\<close> is called with length equal to capacity and the
  constructor of the new element throws, the exception leaves the vector as it was before
  the call: the same size, the same capacity and the same cells.
\<close>

theorem EmplaceBack_growth_throw_unchanged:
  "size_v v = capacity_m (data_v v) \<Longrightarrow> construct args (GetAddress (data_v v)) = CtorThrows \<Longrightarrow>
   EmplaceBack T args v = Thrown v"
  by (simp add: EmplaceBack_def EmplaceBack_traced_def Let_def)

theorem EmplaceBack_growth_throw_unchanged_witness:
  "size_v \<lparr>data_v = \<lparr>buffer_m = Some [Some (Val (1::nat)), Some (Val 2)], capacity_m = 2\<rparr>, size_v = 2\<rparr>
     = capacity_m (data_v \<lparr>data_v = \<lparr>buffer_m = Some [Some (Val (1::nat)), Some (Val 2)], capacity_m = 2\<rparr>, size_v = 2\<rparr>)
   \<and> construct Bad (GetAddress (data_v \<lparr>data_v = \<lparr>buffer_m = Some [Some (Val (1::nat)), Some (Val 2)], capacity_m = 2\<rparr>, size_v = 2\<rparr>)) = CtorThrows
   \<and> EmplaceBack \<lparr>is_nothrow_move_constructible = True, is_copy_constructible = True, value_init = 0\<rparr>
        Bad \<lparr>data_v = \<lparr>buffer_m = Some [Some (Val (1::nat)), Some (Val 2)], capacity_m = 2\<rparr>, size_v = 2\<rparr>
       = Thrown \<lparr>data_v = \<lparr>buffer_m = Some [Some (Val (1::nat)), Some (Val 2)], capacity_m = 2\<rparr>, size_v = 2\<rparr>"
proof -
  let ?v = "\<lparr>data_v = \<lparr>buffer_m = Some [Some (Val (1::nat)), Some (Val 2)], capacity_m = 2\<rparr>, size_v = 2\<rparr>"
  have a: "size_v ?v = capacity_m (data_v ?v)" by simp
  have b: "construct Bad (GetAddress (data_v ?v)) = CtorThrows" by (simp add: construct_def)
  show ?thesis using a b EmplaceBack_growth_throw_unchanged [OF a b] by blast
qed

section \<open>Insertion followed by removal\<close>

text \<open>
  Claim C6. For a vector that satisfies the representation invariant, a position \<open>p\<close>
  in \<open>[0, length]\<close> and a value \<open>x\<close>: inserting \<open>x\<close> at \<open>p\<close> returns a position, and
  erasing at that position gives back the elements of the vector, in the same order,
  with the same size.
\<close>

theorem insert_then_erase:
  assumes "Vector_inv v" and "p \<le> size_v v"
  shows "\<exists>q v1 r v2. Insert T (begin_v v + p) (Args x) v = Returned q v1
           \<and> Erase q v1 = Returned r v2
           \<and> elems v2 = elems v \<and> Size v2 = Size v"
proof -
  from Emplace_Returned [OF assms construct_Args, of T x] obtain v1 where
    v1: "Emplace T p (Args x) v = Returned p v1" "Vector_inv v1"
      "elems v1 = take p (elems v) @ [Val x] @ drop p (elems v)" "size_v v1 = Suc (size_v v)"
    by blast
  have "p < size_v v1" using v1(4) assms(2) by simp
  from Erase_Returned [OF v1(2) this] obtain v2 where
    v2: "Erase p v1 = Returned p v2"
      "elems v2 = take p (elems v1) @ drop (Suc p) (elems v1)" "size_v v2 = size_v v1 - 1"
    by blast
  have "p \<le> length (elems v)" using assms by (simp add: length_elems)
  then have "elems v2 = elems v" using v1(3) v2(2) by simp
  then show ?thesis using v1 v2 by (simp add: Insert_def begin_v_def Size_def)
qed


theorem insert_then_erase_witness:
  "Vector_inv \<lparr>data_v = \<lparr>buffer_m = Some [Some (Val (1::nat)), Some (Val 3)], capacity_m = 2\<rparr>, size_v = 2\<rparr>
   \<and> (1::nat) \<le> size_v \<lparr>data_v = \<lparr>buffer_m = Some [Some (Val (1::nat)), Some (Val 3)], capacity_m = 2\<rparr>, size_v = 2\<rparr>
   \<and> (\<exists>q v1 r v2.
         Insert \<lparr>is_nothrow_move_constructible = True, is_copy_constructible = True, value_init = 0\<rparr>
           (begin_v \<lparr>data_v = \<lparr>buffer_m = Some [Some (Val (1::nat)), Some (Val 3)], capacity_m = 2\<rparr>, size_v = 2\<rparr> + 1)
           (Args 2)
           \<lparr>data_v = \<lparr>buffer_m = Some [Some (Val (1::nat)), Some (Val 3)], capacity_m = 2\<rparr>, size_v = 2\<rparr>
           = Returned q v1
         \<and> Erase q v1 = Returned r v2
         \<and> elems v2 = [Val 1, Val 3] \<and> Size v2 = 2)"
proof -
  let ?v = "\<lparr>data_v = \<lparr>buffer_m = Some [Some (Val (1::nat)), Some (Val 3)], capacity_m = 2\<rparr>, size_v = 2\<rparr>"
  have a: "Vector_inv ?v" by (simp add: Vector_inv_def RawMemory_inv_def GetAddress_def)
  have b: "1 \<le> size_v ?v" by simp
  have c: "elems ?v = [Val 1, Val 3]" "Size ?v = 2" by (simp_all add: elems_def GetAddress_def Size_def)
  show ?thesis using a b insert_then_erase [OF a b, of _ 2] unfolding c by blast
qed

section \<open>The iterator-returning operator+\<close>

text \<open>
  Claim C9. \<^verbatim>\<open>v + n\<close> is the end iterator for every \<open>n\<close>: it is the address at offset
  \<open>n\<close> only when \<open>n\<close> is the size.
\<close>

theorem plus_ignores_offset:
  "plus_v v n = end_v v \<and> (plus_v v n = begin_v v + n \<longleftrightarrow> n = Size v)"
  by (auto simp: plus_v_def end_v_def begin_v_def Size_def)

section \<open>Moving a RawMemory\<close>

text \<open>
  The move constructor leaves its source null with capacity 0. The move assignment hands
  the source's block to the destination and leaves the source null, with the capacity the
  destination had before.
\<close>

lemma RawMemory_move_source_empty:
  "RawMemory_move other = (other, RawMemory_default)"
  by (simp add: RawMemory_move_def RawMemory_default_def)

lemma RawMemory_move_assign_eq:
  "RawMemory_move_assign this rhs = (rhs, \<lparr>buffer_m = None, capacity_m = capacity_m this\<rparr>)"
  by (simp add: RawMemory_move_assign_def)

text \<open>
  Claim C5. A move leaves the source empty, null with capacity 0. The move assignment of
  a \<^verbatim>\<open>RawMemory\<close> does not: assigned to a destination of capacity 3, a source of capacity 5
  is left null with capacity 3.
\<close>

theorem RawMemory_move_assign_stale_capacity:
  "RawMemory_move_assign (RawMemory_new 3) (RawMemory_new 5 :: nat RawMemory)
     = (\<lparr>buffer_m = Some [None, None, None, None, None], capacity_m = 5\<rparr>,
        \<lparr>buffer_m = None, capacity_m = 3\<rparr>)"
  by (simp add: RawMemory_move_assign_def RawMemory_new_def numeral_eq_Suc)

section \<open>Inserting an element of the vector itself\<close>

text \<open>
  Claim C10. With room in the buffer and a position before the end, \<^verbatim>\<open>Insert(pos, v[i])\<close>
  inserts the value \<^verbatim>\<open>v[i]\<close> had before the call, whatever the shift does to cell \<open>i\<close>:
  the temporary is built before any element moves. The buffer is not reallocated.
\<close>

theorem Insert_own_element_in_place:
  assumes "Vector_inv v" and "pos < size_v v" and "size_v v < capacity_m (data_v v)"
    and "i < size_v v"
  shows "\<exists>v'. Insert T (begin_v v + pos) (Alias i) v = Returned (begin_v v + pos) v'
           \<and> elems v' = take pos (elems v) @ [elems v ! i] @ drop pos (elems v)
           \<and> capacity_m (data_v v') = capacity_m (data_v v)"
proof -
  have le: "pos \<le> size_v v" using assms(2) by simp
  from Emplace_Returned [OF assms(1) le construct_Alias [OF assms(1,4)], of T] assms(3)
  show ?thesis by (auto simp: Insert_def begin_v_def)
qed

theorem Insert_own_element_in_place_witness:
  "Vector_inv \<lparr>data_v = \<lparr>buffer_m = Some [Some (Val (1::nat)), Some (Val 2), Some (Val 3), None], capacity_m = 4\<rparr>, size_v = 3\<rparr>
   \<and> (\<exists>v'. Insert \<lparr>is_nothrow_move_constructible = True, is_copy_constructible = True, value_init = 0\<rparr>
           (begin_v \<lparr>data_v = \<lparr>buffer_m = Some [Some (Val (1::nat)), Some (Val 2), Some (Val 3), None], capacity_m = 4\<rparr>, size_v = 3\<rparr> + 1)
           (Alias 2)
           \<lparr>data_v = \<lparr>buffer_m = Some [Some (Val (1::nat)), Some (Val 2), Some (Val 3), None], capacity_m = 4\<rparr>, size_v = 3\<rparr>
         = Returned 1 v'
         \<and> elems v' = [Val 1, Val 3, Val 2, Val 3])"
proof -
  let ?v = "\<lparr>data_v = \<lparr>buffer_m = Some [Some (Val (1::nat)), Some (Val 2), Some (Val 3), None], capacity_m = 4\<rparr>, size_v = 3\<rparr>"
  have a: "Vector_inv ?v" by (simp add: Vector_inv_def RawMemory_inv_def GetAddress_def)
  have b: "1 < size_v ?v" "size_v ?v < capacity_m (data_v ?v)" "2 < size_v ?v" by simp_all
  have c: "elems ?v = [Val 1, Val 2, Val 3]" by (simp add: elems_def GetAddress_def)
  have d: "begin_v ?v + 1 = 1" by (simp add: begin_v_def)
  have e: "take 1 [Val (1::nat), Val 2, Val 3] @ [[Val 1, Val 2, Val 3] ! 2] @ drop 1 [Val 1, Val 2, Val 3]
       = [Val 1, Val 3, Val 2, Val 3]" by simp
  show ?thesis using a Insert_own_element_in_place [OF a b] unfolding c d e by blast
qed

section \<open>Doubling\<close>

lemma push_backs_doubling:
  assumes "Vector_inv v"
    and "(size_v v = 0 \<and> capacity_m (data_v v) = 0)
         \<or> (\<exists>m. capacity_m (data_v v) = 2 ^ m \<and> capacity_m (data_v v) < 2 * size_v v)"
  shows "\<exists>v'. run_ops T (map Push_back xs) v = Returned () v' \<and> Vector_inv v'
           \<and> size_v v' = size_v v + length xs
           \<and> ((size_v v' = 0 \<and> capacity_m (data_v v') = 0)
                \<or> (\<exists>m. capacity_m (data_v v') = 2 ^ m \<and> capacity_m (data_v v') < 2 * size_v v'))"
  using assms
proof (induction xs arbitrary: v)
  case Nil
  then show ?case by simp
next
  case (Cons x xs)
  let ?n = "size_v v" and ?c = "capacity_m (data_v v)"
  from EmplaceBack_Returned [OF Cons.prems(1) construct_Args, of T x] obtain v1 where
    v1: "EmplaceBack T (Args x) v = Returned ?n v1" "Vector_inv v1" "size_v v1 = Suc ?n"
      "capacity_m (data_v v1) = (if ?n = ?c then (if ?n = 0 then 1 else ?n * 2) else ?c)"
    by blast
  have step: "apply_op T (Push_back x) v = Returned () v1"
    using v1(1) by (simp add: PushBack_def)
  have "\<exists>m. capacity_m (data_v v1) = 2 ^ m \<and> capacity_m (data_v v1) < 2 * size_v v1"
  proof (cases "?n = ?c")
    case False
    with Cons.prems(2) Vector_inv_le [OF Cons.prems(1)] v1(3,4) show ?thesis by auto
  next
    case True
    show ?thesis
    proof (cases "?n = 0")
      case True
      with \<open>?n = ?c\<close> v1(3,4) have "capacity_m (data_v v1) = 2 ^ 0 \<and> capacity_m (data_v v1) < 2 * size_v v1"
        by simp
      then show ?thesis by blast
    next
      case False
      with Cons.prems(2) obtain m where m: "?c = 2 ^ m" by auto
      with \<open>?n = ?c\<close> False v1(3,4)
      have "capacity_m (data_v v1) = 2 ^ Suc m \<and> capacity_m (data_v v1) < 2 * size_v v1"
        by simp
      then show ?thesis by blast
    qed
  qed
  then have "(size_v v1 = 0 \<and> capacity_m (data_v v1) = 0)
         \<or> (\<exists>m. capacity_m (data_v v1) = 2 ^ m \<and> capacity_m (data_v v1) < 2 * size_v v1)"
    by blast
  from Cons.IH [OF v1(2) this] step v1(3) show ?case by simp
qed

lemma least_power_of_two:
  fixes c k :: nat
  assumes "c = 2 ^ m" "c < 2 * k" "k \<le> 2 ^ j"
  shows "c \<le> 2 ^ j"
proof (rule ccontr)
  assume "\<not> c \<le> 2 ^ j"
  then have "(2::nat) ^ j < 2 ^ m" using assms(1) by simp
  then have "j < m" by (simp add: power_strict_increasing_iff)
  then have "Suc j \<le> m" by simp
  then have "(2::nat) ^ Suc j \<le> 2 ^ m" by (intro power_increasing) simp_all
  then have "2 * k \<le> c" using assms(1,3) by simp
  with assms(2) show False by simp
qed

text \<open>
  Claim C3. In a run of \<^verbatim>\<open>PushBack\<close> calls on an empty vector, every call returns; after
  the \<open>k\<close>-th call the size is \<open>k\<close> and the capacity is the least power of two that is
  at least \<open>k\<close>, so the capacity is never below the size.
\<close>

theorem push_back_size_and_capacity:
  assumes "0 < k" and "k \<le> length xs"
  shows "\<exists>v. run_ops T (map Push_back (take k xs)) Vector_default = Returned () v
           \<and> Size v = k
           \<and> (\<exists>m. Capacity v = 2 ^ m) \<and> k \<le> Capacity v
           \<and> (\<forall>j. k \<le> 2 ^ j \<longrightarrow> Capacity v \<le> 2 ^ j)"
proof -
  have start: "(size_v (Vector_default :: 'a Vector) = 0
                 \<and> capacity_m (data_v (Vector_default :: 'a Vector)) = 0)
         \<or> (\<exists>m. capacity_m (data_v (Vector_default :: 'a Vector)) = 2 ^ m
               \<and> capacity_m (data_v (Vector_default :: 'a Vector)) < 2 * size_v (Vector_default :: 'a Vector))"
    by (simp add: Vector_default_def RawMemory_default_def)
  have len: "length (take k xs) = k" using assms(2) by simp
  have sz0: "size_v (Vector_default :: 'a Vector) = 0" by (simp add: Vector_default_def)
  from push_backs_doubling [OF Vector_inv_default start, of T "take k xs"] obtain v where
    v: "run_ops T (map Push_back (take k xs)) Vector_default = Returned () v" "Vector_inv v"
      "size_v v = k"
      and alt: "(size_v v = 0 \<and> capacity_m (data_v v) = 0)
         \<or> (\<exists>m. capacity_m (data_v v) = 2 ^ m \<and> capacity_m (data_v v) < 2 * size_v v)"
    unfolding len sz0 by auto
  from alt v(3) assms(1) obtain m where
    m: "capacity_m (data_v v) = 2 ^ m" "capacity_m (data_v v) < 2 * k"
    by auto
  have "\<forall>j. k \<le> 2 ^ j \<longrightarrow> capacity_m (data_v v) \<le> 2 ^ j"
    using least_power_of_two [OF m] by blast
  moreover have "k \<le> capacity_m (data_v v)" using Vector_inv_le [OF v(2)] v(3) by simp
  ultimately show ?thesis using v m(1) by (auto simp: Size_def Capacity_def)
qed

theorem push_back_size_and_capacity_witness:
  "(0::nat) < 3 \<and> 3 \<le> length [5, 6, 7 :: nat]
   \<and> (\<exists>v. run_ops \<lparr>is_nothrow_move_constructible = True, is_copy_constructible = True,
                     value_init = 0\<rparr>
             (map Push_back (take 3 [5, 6, 7 :: nat])) Vector_default = Returned () v
         \<and> Size v = 3 \<and> (\<exists>m. Capacity v = 2 ^ m) \<and> 3 \<le> Capacity v
         \<and> (\<forall>j. 3 \<le> (2::nat) ^ j \<longrightarrow> Capacity v \<le> 2 ^ j))"
proof -
  have a: "(0::nat) < 3" "3 \<le> length [5, 6, 7 :: nat]" by simp_all
  show ?thesis using a push_back_size_and_capacity [OF a] by blast
qed

text \<open>The first three calls: capacities 1, 2 and 4.\<close>

lemma push_back_three_capacity:
  "run_ops \<lparr>is_nothrow_move_constructible = True, is_copy_constructible = True, value_init = 0\<rparr>
     (map Push_back [5, 6, 7 :: nat]) Vector_default
   = Returned () \<lparr>data_v = \<lparr>buffer_m = Some [Some (Val 5), Some (Val 6), Some (Val 7), None],
                                 capacity_m = 4\<rparr>, size_v = 3\<rparr>"
  by code_simp

section \<open>Value-initialisation that may throw\<close>





section \<open>Requests for a block\<close>

lemma RawMemory_sized_granted:
  assumes "0 < sizeof_T R" and "n * sizeof_T R < 2 ^ 64"
    and "\<not> operator_new_throws R (n * sizeof_T R)"
  shows "RawMemory_sized R n = Some (RawMemory_new n)"
  using assms by (simp add: RawMemory_sized_def Allocate_def RawMemory_new_def Let_def)


lemma RawMemory_sized_Some:
  assumes "RawMemory_sized R n = Some d" and "n \<noteq> 0"
  shows "\<exists>k. d = \<lparr>buffer_m = Some (replicate k None), capacity_m = n\<rparr>"
  using assms by (auto simp: RawMemory_sized_def Allocate_def Let_def split: if_splits)

section \<open>The transfer policy\<close>

lemma nth_Transfer_src:
  "i < length src \<Longrightarrow>
   fst (TransferDataToNewHeap T src first n dst d) ! i =
     (if (is_nothrow_move_constructible T \<or> \<not> is_copy_constructible T)
         \<and> first \<le> i \<and> i < first + n
      then Some MovedFrom else src ! i)"
  by (auto simp: TransferDataToNewHeap_def nth_uninitialized_move_n_src)

text \<open>
  The old block of a vector whose first \<open>size_\<close> cells have all been through a transfer.
\<close>

lemma destroyed_originals:
  assumes inv: "Vector_inv v" and len: "length old = length (GetAddress (data_v v))"
    and cells: "\<And>i. i < size_v v \<Longrightarrow>
       old ! i = (if is_nothrow_move_constructible T \<or> \<not> is_copy_constructible T
                  then Some MovedFrom else GetAddress (data_v v) ! i)"
  shows "destroyed old 0 (size_v v) = originals_after_transfer T v"
proof -
  note le = Vector_inv_le [OF inv] and live = nth_elems [OF inv]
    and lenv = Vector_inv_length [OF inv] and lenE = length_elems [OF inv]
  show ?thesis
  proof (cases "is_nothrow_move_constructible T \<or> \<not> is_copy_constructible T")
    case True
    have "take (size_v v) old = replicate (size_v v) (Some MovedFrom)"
      using len lenv le cells True by (intro nth_equalityI) auto
    with True show ?thesis by (simp add: destroyed_def originals_after_transfer_def)
  next
    case False
    have "take (size_v v) old = map Some (elems v)"
      using len lenv le cells False live lenE by (intro nth_equalityI) auto
    with False show ?thesis by (simp add: destroyed_def originals_after_transfer_def)
  qed
qed

lemma Reserve_traced_reallocates:
  fixes v :: "'a Vector" and new_data :: "'a RawMemory"
  assumes inv: "Vector_inv v" and gt: "capacity_m (data_v v) < new_capacity"
    and req: "RawMemory_sized R new_capacity = Some new_data"
    and room: "size_v v \<le> length (GetAddress new_data)"
  shows "\<exists>v'. Reserve_traced R T new_capacity v = (originals_after_transfer T v, Returned () v')
           \<and> size_v v' = size_v v \<and> capacity_m (data_v v') = new_capacity
           \<and> elems v' = elems v
           \<and> length (GetAddress (data_v v')) = length (GetAddress new_data)
           \<and> (\<forall>i < length (GetAddress new_data).
                 GetAddress (data_v v') ! i
                   = (if i < size_v v then GetAddress (data_v v) ! i else None))"
proof -
  let ?b = "GetAddress (data_v v)" and ?n = "size_v v"
  note le = Vector_inv_le [OF inv] and live = nth_elems [OF inv]
    and len = Vector_inv_length [OF inv] and lenE = length_elems [OF inv]
  from gt have "new_capacity \<noteq> 0" by simp
  from RawMemory_sized_Some [OF req this] obtain k where
    nd: "new_data = \<lparr>buffer_m = Some (replicate k None), capacity_m = new_capacity\<rparr>"
    by blast
  have gnd: "GetAddress new_data = replicate k None" by (simp add: nd GetAddress_def)
  let ?tr = "TransferDataToNewHeap T ?b 0 ?n (replicate k None) 0"
  let ?v' = "v\<lparr>data_v := store new_data (snd ?tr)\<rparr>"
  have run: "Reserve_traced R T new_capacity v = (destroyed (fst ?tr) 0 ?n, Returned () ?v')"
    using gt req room gnd by (simp add: Reserve_traced_def Let_def split_beta)
  have gone: "destroyed (fst ?tr) 0 ?n = originals_after_transfer T v"
  proof (rule destroyed_originals [OF inv])
    show "length (fst ?tr) = length ?b" by simp
    fix i assume "i < ?n"
    then show "fst ?tr ! i = (if is_nothrow_move_constructible T \<or> \<not> is_copy_constructible T
                  then Some MovedFrom else ?b ! i)"
      using le len by (simp add: nth_Transfer_src)
  qed
  have ga: "GetAddress (data_v ?v') = snd ?tr"
    by (simp add: nd store_def GetAddress_def)
  have nth: "snd ?tr ! i = (if i < ?n then ?b ! i else None)" if "i < k" for i
    using that by (simp add: nth_Transfer_dst)
  have el: "elems ?v' = elems v"
  proof (rule elems_eqI)
    show "length (elems v) = size_v ?v'" using lenE by simp
    show "size_v ?v' \<le> length (GetAddress (data_v ?v'))" unfolding ga using room gnd by simp
    fix i assume "i < size_v ?v'"
    then show "GetAddress (data_v ?v') ! i = Some (elems v ! i)"
      unfolding ga using nth [of i] room gnd live [of i] by simp
  qed
  have cap: "capacity_m (data_v ?v') = new_capacity" by (simp add: nd)
  have "\<forall>i < length (GetAddress new_data).
           GetAddress (data_v ?v') ! i = (if i < ?n then ?b ! i else None)"
    unfolding ga gnd using nth by simp
  moreover have "length (GetAddress (data_v ?v')) = length (GetAddress new_data)"
    unfolding ga gnd by simp
  ultimately show ?thesis using run gone el cap by auto
qed



lemma Reserve_noop:
  "new_capacity \<le> capacity_m (data_v v) \<Longrightarrow> Reserve R T new_capacity v = Returned () v"
  by (simp add: Reserve_def Reserve_traced_def)

lemma EmplaceBack_traced_grow:
  assumes inv: "Vector_inv v" and full: "size_v v = capacity_m (data_v v)"
    and c: "construct args (GetAddress (data_v v)) = Built x"
  shows "fst (EmplaceBack_traced T args v) = originals_after_transfer T v"
proof -
  let ?b = "GetAddress (data_v v)" and ?n = "size_v v"
  note len = Vector_inv_length [OF inv]
  let ?c = "if ?n = 0 then 1 else ?n * 2"
  let ?tr = "TransferDataToNewHeap T ?b 0 ?n ((replicate ?c None)[?n := Some x]) 0"
  have "fst (EmplaceBack_traced T args v) = destroyed (fst ?tr) 0 ?n"
    using full c by (simp add: EmplaceBack_traced_def Let_def split_beta)
  also have "\<dots> = originals_after_transfer T v"
  proof (rule destroyed_originals [OF inv])
    show "length (fst ?tr) = length ?b" by simp
    fix i assume "i < ?n"
    then show "fst ?tr ! i = (if is_nothrow_move_constructible T \<or> \<not> is_copy_constructible T
                  then Some MovedFrom else ?b ! i)"
      using full len by (simp add: nth_Transfer_src)
  qed
  finally show ?thesis .
qed

lemma Emplace_traced_grow:
  assumes inv: "Vector_inv v" and pos: "pos < size_v v"
    and full: "size_v v = capacity_m (data_v v)"
    and c: "construct args (GetAddress (data_v v)) = Built x"
  shows "fst (Emplace_traced T pos args v) = originals_after_transfer T v"
proof -
  let ?b = "GetAddress (data_v v)" and ?n = "size_v v"
  note len = Vector_inv_length [OF inv]
  let ?c = "if ?n = 0 then 1 else ?n * 2"
  let ?tr1 = "TransferDataToNewHeap T ?b 0 pos ((replicate ?c None)[pos := Some x]) 0"
  let ?tr2 = "TransferDataToNewHeap T (fst ?tr1) pos (?n - pos) (snd ?tr1) (pos + 1)"
  have "fst (Emplace_traced T pos args v) = destroyed (fst ?tr2) 0 ?n"
    using pos full c
    by (simp add: Emplace_traced_def cbegin_def cend_def begin_v_def end_v_def Let_def split_beta)
  also have "\<dots> = originals_after_transfer T v"
  proof (rule destroyed_originals [OF inv])
    show "length (fst ?tr2) = length ?b" by simp
    fix i assume i: "i < ?n"
    have a: "fst ?tr2 ! i =
        (if (is_nothrow_move_constructible T \<or> \<not> is_copy_constructible T)
            \<and> pos \<le> i \<and> i < pos + (?n - pos)
         then Some MovedFrom else fst ?tr1 ! i)"
      using i full len by (intro nth_Transfer_src) simp
    have b: "fst ?tr1 ! i =
        (if (is_nothrow_move_constructible T \<or> \<not> is_copy_constructible T)
            \<and> 0 \<le> i \<and> i < 0 + pos
         then Some MovedFrom else ?b ! i)"
      using i full len by (intro nth_Transfer_src) simp
    show "fst ?tr2 ! i = (if is_nothrow_move_constructible T \<or> \<not> is_copy_constructible T
                  then Some MovedFrom else ?b ! i)"
      unfolding a b using i pos by (cases "i < pos") auto
  qed
  finally show ?thesis .
qed

text \<open>
  Claim C4. Every reallocation of a vector that satisfies the representation invariant
  (\<^verbatim>\<open>Reserve\<close> beyond the capacity, once its block is allocated with room for the
  elements; \<^verbatim>\<open>EmplaceBack\<close> at full capacity; \<^verbatim>\<open>Emplace\<close> before the end at full capacity)
  returns with the elements in the new buffer, and the objects it then destroys in the
  old buffer are the whole range of originals in one state, fixed by the two traits of
  \<^verbatim>\<open>T\<close> alone: all moved from when \<^verbatim>\<open>T\<close> has a non-throwing move constructor or no copy
  constructor, and all as they were, copied from, otherwise.
\<close>

theorem reallocation_transfer_policy:
  fixes v :: "'a Vector" and new_data :: "'a RawMemory"
  assumes "Vector_inv v"
  shows "(capacity_m (data_v v) < n \<and> RawMemory_sized R n = Some new_data
            \<and> size_v v \<le> length (GetAddress new_data) \<longrightarrow>
          (\<exists>v'. Reserve_traced R T n v = (originals_after_transfer T v, Returned () v')
                \<and> Reserve R T n v = Returned () v'
                \<and> Capacity v' = n \<and> Size v' = Size v \<and> elems v' = elems v))
       \<and> (size_v v = capacity_m (data_v v)
            \<and> construct args (GetAddress (data_v v)) = Built x \<longrightarrow>
          (\<exists>v'. EmplaceBack_traced T args v
                   = (originals_after_transfer T v, Returned (size_v v) v')
                \<and> EmplaceBack T args v = Returned (size_v v) v'
                \<and> Capacity v' = (if size_v v = 0 then 1 else size_v v * 2)
                \<and> elems v' = elems v @ [x]))
       \<and> (pos < size_v v \<and> size_v v = capacity_m (data_v v)
            \<and> construct args (GetAddress (data_v v)) = Built x \<longrightarrow>
          (\<exists>v'. Emplace_traced T (begin_v v + pos) args v
                   = (originals_after_transfer T v, Returned (begin_v v + pos) v')
                \<and> Emplace T (begin_v v + pos) args v = Returned (begin_v v + pos) v'
                \<and> Capacity v' = size_v v * 2
                \<and> elems v' = take pos (elems v) @ [x] @ drop pos (elems v)))
       \<and> originals_after_transfer T v
           = (if is_nothrow_move_constructible T \<or> \<not> is_copy_constructible T
              then replicate (size_v v) (Some MovedFrom)
              else take (size_v v) (GetAddress (data_v v)))"
proof (intro conjI impI)
  assume h: "capacity_m (data_v v) < n \<and> RawMemory_sized R n = Some new_data
            \<and> size_v v \<le> length (GetAddress new_data)"
  then have gt: "capacity_m (data_v v) < n" and req: "RawMemory_sized R n = Some new_data"
    and room: "size_v v \<le> length (GetAddress new_data)" by simp_all
  from Reserve_traced_reallocates [OF assms gt req room, of T]
  show "\<exists>v'. Reserve_traced R T n v = (originals_after_transfer T v, Returned () v')
                \<and> Reserve R T n v = Returned () v'
                \<and> Capacity v' = n \<and> Size v' = Size v \<and> elems v' = elems v"
    by (auto simp: Reserve_def Capacity_def Size_def)
next
  assume h: "size_v v = capacity_m (data_v v)
            \<and> construct args (GetAddress (data_v v)) = Built x"
  then have full: "size_v v = capacity_m (data_v v)"
    and c: "construct args (GetAddress (data_v v)) = Built x" by simp_all
  from EmplaceBack_Returned [OF assms c, of T] obtain v' where
    v': "EmplaceBack T args v = Returned (size_v v) v'" "elems v' = elems v @ [x]"
      "capacity_m (data_v v') = (if size_v v = 0 then 1 else size_v v * 2)"
    using full by auto
  have "EmplaceBack_traced T args v = (originals_after_transfer T v, Returned (size_v v) v')"
    using EmplaceBack_traced_grow [OF assms full c, of T] v'(1)
    by (simp add: EmplaceBack_def prod_eq_iff)
  with v' show "\<exists>v'. EmplaceBack_traced T args v
                   = (originals_after_transfer T v, Returned (size_v v) v')
                \<and> EmplaceBack T args v = Returned (size_v v) v'
                \<and> Capacity v' = (if size_v v = 0 then 1 else size_v v * 2)
                \<and> elems v' = elems v @ [x]"
    by (auto simp: Capacity_def)
next
  assume h: "pos < size_v v \<and> size_v v = capacity_m (data_v v)
            \<and> construct args (GetAddress (data_v v)) = Built x"
  then have pos: "pos < size_v v" and full: "size_v v = capacity_m (data_v v)"
    and c: "construct args (GetAddress (data_v v)) = Built x" by simp_all
  from pos have le: "pos \<le> size_v v" by simp
  from Emplace_Returned [OF assms le c, of T] obtain v' where
    v': "Emplace T pos args v = Returned pos v'"
      "elems v' = take pos (elems v) @ [x] @ drop pos (elems v)"
      "capacity_m (data_v v') = size_v v * 2"
    using full pos by auto
  have "Emplace_traced T pos args v = (originals_after_transfer T v, Returned pos v')"
    using Emplace_traced_grow [OF assms pos full c, of T] v'(1)
    by (simp add: Emplace_def prod_eq_iff)
  with v' show "\<exists>v'. Emplace_traced T (begin_v v + pos) args v
                   = (originals_after_transfer T v, Returned (begin_v v + pos) v')
                \<and> Emplace T (begin_v v + pos) args v = Returned (begin_v v + pos) v'
                \<and> Capacity v' = size_v v * 2
                \<and> elems v' = take pos (elems v) @ [x] @ drop pos (elems v)"
    by (auto simp: Capacity_def begin_v_def)
next
  have "map Some (elems v) = take (size_v v) (GetAddress (data_v v))"
    using nth_elems [OF assms] length_elems [OF assms] Vector_inv_le [OF assms]
      Vector_inv_length [OF assms]
    by (intro nth_equalityI) auto
  then show "originals_after_transfer T v
           = (if is_nothrow_move_constructible T \<or> \<not> is_copy_constructible T
              then replicate (size_v v) (Some MovedFrom)
              else take (size_v v) (GetAddress (data_v v)))"
    by (simp add: originals_after_transfer_def)
qed

theorem reallocation_transfer_policy_witness:
  "Vector_inv \<lparr>data_v = \<lparr>buffer_m = Some [Some (Val (1::nat)), Some (Val 2)], capacity_m = 2\<rparr>, size_v = 2\<rparr>
   \<and> (\<exists>v'. Reserve_traced \<lparr>sizeof_T = 4, operator_new_throws = (\<lambda>bytes. False), value_init_throws = (\<lambda>k. False)\<rparr>
              \<lparr>is_nothrow_move_constructible = True, is_copy_constructible = True, value_init = 0\<rparr> 5
              \<lparr>data_v = \<lparr>buffer_m = Some [Some (Val (1::nat)), Some (Val 2)], capacity_m = 2\<rparr>, size_v = 2\<rparr>
            = ([Some MovedFrom, Some MovedFrom], Returned () v')
          \<and> Capacity v' = 5 \<and> elems v' = [Val 1, Val 2])
   \<and> (\<exists>v'. Reserve_traced \<lparr>sizeof_T = 4, operator_new_throws = (\<lambda>bytes. False), value_init_throws = (\<lambda>k. False)\<rparr>
              \<lparr>is_nothrow_move_constructible = False, is_copy_constructible = True, value_init = 0\<rparr> 5
              \<lparr>data_v = \<lparr>buffer_m = Some [Some (Val (1::nat)), Some (Val 2)], capacity_m = 2\<rparr>, size_v = 2\<rparr>
            = ([Some (Val 1), Some (Val 2)], Returned () v')
          \<and> Capacity v' = 5 \<and> elems v' = [Val 1, Val 2])
   \<and> (\<exists>v'. EmplaceBack_traced
              \<lparr>is_nothrow_move_constructible = False, is_copy_constructible = False, value_init = 0\<rparr> (Args 9)
              \<lparr>data_v = \<lparr>buffer_m = Some [Some (Val (1::nat)), Some (Val 2)], capacity_m = 2\<rparr>, size_v = 2\<rparr>
            = ([Some MovedFrom, Some MovedFrom], Returned 2 v')
          \<and> Capacity v' = 4 \<and> elems v' = [Val 1, Val 2, Val 9])
   \<and> (\<exists>v'. Emplace_traced
              \<lparr>is_nothrow_move_constructible = False, is_copy_constructible = True, value_init = 0\<rparr> 1 (Args 9)
              \<lparr>data_v = \<lparr>buffer_m = Some [Some (Val (1::nat)), Some (Val 2)], capacity_m = 2\<rparr>, size_v = 2\<rparr>
            = ([Some (Val 1), Some (Val 2)], Returned 1 v')
          \<and> Capacity v' = 4 \<and> elems v' = [Val 1, Val 9, Val 2])"
proof -
  let ?v = "\<lparr>data_v = \<lparr>buffer_m = Some [Some (Val (1::nat)), Some (Val 2)], capacity_m = 2\<rparr>, size_v = 2\<rparr>"
  let ?R = "\<lparr>sizeof_T = 4, operator_new_throws = (\<lambda>bytes. False), value_init_throws = (\<lambda>k. False)\<rparr>"
  let ?Tn = "\<lparr>is_nothrow_move_constructible = True, is_copy_constructible = True, value_init = 0::nat\<rparr>"
  let ?Tc = "\<lparr>is_nothrow_move_constructible = False, is_copy_constructible = True, value_init = 0::nat\<rparr>"
  let ?Tm = "\<lparr>is_nothrow_move_constructible = False, is_copy_constructible = False, value_init = 0::nat\<rparr>"
  have inv: "Vector_inv ?v" by (simp add: Vector_inv_def RawMemory_inv_def GetAddress_def)
  have el: "elems ?v = [Val 1, Val 2]" by (simp add: elems_def GetAddress_def)
  have req: "RawMemory_sized ?R 5 = Some (RawMemory_new 5 :: nat RawMemory)"
    by (intro RawMemory_sized_granted) simp_all
  have h1: "capacity_m (data_v ?v) < 5 \<and> RawMemory_sized ?R 5 = Some (RawMemory_new 5 :: nat RawMemory)
      \<and> size_v ?v \<le> length (GetAddress (RawMemory_new 5 :: nat RawMemory))"
    using req by simp
  have h2: "size_v ?v = capacity_m (data_v ?v) \<and> construct (Args 9) (GetAddress (data_v ?v)) = Built (Val 9)"
    by simp
  have h3: "1 < size_v ?v \<and> size_v ?v = capacity_m (data_v ?v)
      \<and> construct (Args 9) (GetAddress (data_v ?v)) = Built (Val 9)"
    by simp
  have rep: "replicate 2 (Some (MovedFrom :: nat obj)) = [Some MovedFrom, Some MovedFrom]"
    by (simp add: numeral_2_eq_2)
  have on: "originals_after_transfer ?Tn ?v = [Some MovedFrom, Some MovedFrom]"
    "originals_after_transfer ?Tm ?v = [Some MovedFrom, Some MovedFrom]"
    "originals_after_transfer ?Tc ?v = [Some (Val 1), Some (Val 2)]"
    unfolding originals_after_transfer_def el by (simp_all add: rep)
  note P = reallocation_transfer_policy [OF inv]
  have a: "\<exists>v'. Reserve_traced ?R ?Tn 5 ?v = ([Some MovedFrom, Some MovedFrom], Returned () v')
          \<and> Capacity v' = 5 \<and> elems v' = [Val 1, Val 2]"
    using P [where n = 5 and R = ?R and new_data = "RawMemory_new 5" and T = ?Tn,
        THEN conjunct1, rule_format, OF h1]
    unfolding on el by blast
  have b: "\<exists>v'. Reserve_traced ?R ?Tc 5 ?v = ([Some (Val 1), Some (Val 2)], Returned () v')
          \<and> Capacity v' = 5 \<and> elems v' = [Val 1, Val 2]"
    using P [where n = 5 and R = ?R and new_data = "RawMemory_new 5" and T = ?Tc,
        THEN conjunct1, rule_format, OF h1]
    unfolding on el by blast
  have c: "\<exists>v'. EmplaceBack_traced ?Tm (Args 9) ?v = ([Some MovedFrom, Some MovedFrom], Returned 2 v')
          \<and> Capacity v' = 4 \<and> elems v' = [Val 1, Val 2, Val 9]"
    using P [where args = "Args 9" and x = "Val 9" and T = ?Tm,
        THEN conjunct2, THEN conjunct1, rule_format, OF h2]
    unfolding on el by auto
  have d: "\<exists>v'. Emplace_traced ?Tc 1 (Args 9) ?v = ([Some (Val 1), Some (Val 2)], Returned 1 v')
          \<and> Capacity v' = 4 \<and> elems v' = [Val 1, Val 9, Val 2]"
    using P [where args = "Args 9" and x = "Val 9" and pos = 1 and T = ?Tc,
        THEN conjunct2, THEN conjunct2, THEN conjunct1, rule_format, OF h3]
    unfolding on el by (auto simp: begin_v_def)
  show ?thesis using inv a b c d by blast
qed

section \<open>Resize\<close>






lemma plain_runtime_simps [simp]:
  "sizeof_T (plain_runtime s) = s"
  "operator_new_throws (plain_runtime s) bytes = False"
  "value_init_throws (plain_runtime s) k = False"
  by (simp_all add: plain_runtime_def)




section \<open>Length and capacity\<close>

lemma RawMemory_sized_capacity:
  "RawMemory_sized R n = Some d \<Longrightarrow> capacity_m d = n"
  by (auto simp: RawMemory_sized_def split: allocation.splits)

lemma llc_iff: "length_le_capacity v \<longleftrightarrow> size_v v \<le> capacity_m (data_v v)"
  by (simp add: length_le_capacity_def Size_def Capacity_def)

lemma llc_default: "length_le_capacity Vector_default"
  by (simp add: llc_iff Vector_default_def)

lemma llc_n: "constructs length_le_capacity (Vector_n R T n)"
  by (auto simp: constructs_def llc_iff Vector_n_def RawMemory_sized_capacity
      split: option.splits sum.splits)

lemma llc_copy: "length_le_capacity (Vector_copy other)"
  by (simp add: llc_iff Vector_copy_def Let_def)

lemma llc_Swap:
  "length_le_capacity this \<Longrightarrow> length_le_capacity other \<Longrightarrow>
   length_le_capacity (fst (Swap this other)) \<and> length_le_capacity (snd (Swap this other))"
  by (simp add: llc_iff Swap_def)

lemma llc_move:
  "length_le_capacity other \<Longrightarrow>
   length_le_capacity (fst (Vector_move other)) \<and> length_le_capacity (snd (Vector_move other))"
  unfolding Vector_move_def by (rule llc_Swap [OF llc_default])

lemma llc_assign_copy:
  "length_le_capacity this \<Longrightarrow> length_le_capacity (assign_copy this rhs_opt)"
  by (cases rhs_opt) (simp_all add: llc_iff assign_copy_def Let_def Swap_def Vector_copy_def)

lemma llc_assign_move:
  "length_le_capacity this \<Longrightarrow> length_le_capacity rhs \<Longrightarrow>
   length_le_capacity (fst (assign_move this rhs)) \<and> length_le_capacity (snd (assign_move this rhs))"
  unfolding assign_move_def by (rule llc_Swap)

text \<open>What \<^verbatim>\<open>Reserve\<close> leaves: the same vector after a throw, room for the request after a return.\<close>

lemma Reserve_outcomes:
  "(case Reserve R T n v of
      Returned u v1 \<Rightarrow> size_v v1 = size_v v
                        \<and> (if n \<le> capacity_m (data_v v) then v1 = v
                           else capacity_m (data_v v1) = n)
    | Thrown v1 \<Rightarrow> v1 = v
    | Undefined \<Rightarrow> True)"
  by (auto simp: Reserve_def Reserve_traced_def Let_def split_beta RawMemory_sized_capacity
      split: option.splits)

lemma llc_Reserve:
  "length_le_capacity v \<Longrightarrow> leaves length_le_capacity (Reserve R T n v)"
  using Reserve_outcomes [where R = R and T = T and n = n and v = v]
  by (auto simp: leaves_def llc_iff split: outcome.splits if_splits)

lemma llc_Resize:
  "length_le_capacity v \<Longrightarrow> leaves length_le_capacity (Resize R T n v)"
  using Reserve_outcomes [where R = R and T = T and n = n and v = v]
  by (auto simp: leaves_def llc_iff Resize_def split: outcome.splits if_splits sum.splits)

lemma llc_return_back: "leaves length_le_capacity (return_back v)"
  by (simp add: leaves_def llc_iff return_back_def)

lemma llc_EmplaceBack:
  "length_le_capacity v \<Longrightarrow> leaves length_le_capacity (EmplaceBack T args v)"
  using llc_return_back
  by (auto simp: EmplaceBack_def EmplaceBack_traced_def Let_def split_beta leaves_def
      split: built.splits)

lemma llc_PushBack:
  "length_le_capacity v \<Longrightarrow> leaves length_le_capacity (PushBack T args v)"
  using llc_EmplaceBack [of v T args]
  by (auto simp: PushBack_def leaves_def split: outcome.splits)

lemma llc_PopBack: "length_le_capacity v \<Longrightarrow> leaves length_le_capacity (PopBack v)"
  by (auto simp: leaves_def llc_iff PopBack_def)

lemma llc_Emplace:
  "length_le_capacity v \<Longrightarrow> leaves length_le_capacity (Emplace T pos args v)"
  using llc_EmplaceBack [of v T args]
  by (auto simp: Emplace_def Emplace_traced_def EmplaceBack_def Let_def split_beta leaves_def
      llc_iff split: built.splits outcome.splits)

lemma llc_Erase: "length_le_capacity v \<Longrightarrow> leaves length_le_capacity (Erase pos v)"
  by (auto simp: Erase_def Let_def PopBack_def leaves_def llc_iff)


text \<open>
  Claim C8. The constructors establish \<open>length \<le> capacity\<close> in the vector they return,
  and every public operation called on vectors that satisfy it leaves vectors that satisfy
  it, whether it returns or throws.
\<close>

theorem length_le_capacity_preserved:
  assumes "length_le_capacity v" and "length_le_capacity w"
  shows "length_le_capacity (Vector_default :: 'a Vector)
       \<and> constructs length_le_capacity (Vector_n R T n :: ('a Vector, unit) outcome)
       \<and> length_le_capacity (Vector_copy v)
       \<and> length_le_capacity (fst (Vector_move v)) \<and> length_le_capacity (snd (Vector_move v))
       \<and> length_le_capacity (assign_copy v (Some w)) \<and> length_le_capacity (assign_copy v None)
       \<and> length_le_capacity (fst (assign_move v w)) \<and> length_le_capacity (snd (assign_move v w))
       \<and> leaves length_le_capacity (Reserve R T n v)
       \<and> leaves length_le_capacity (Resize R T n v)
       \<and> leaves length_le_capacity (EmplaceBack T args v)
       \<and> leaves length_le_capacity (PushBack T args v)
       \<and> leaves length_le_capacity (PopBack v)
       \<and> leaves length_le_capacity (Emplace T pos args v)
       \<and> leaves length_le_capacity (Insert T pos args v)
       \<and> leaves length_le_capacity (Erase pos v)
       \<and> length_le_capacity (fst (Swap v w)) \<and> length_le_capacity (snd (Swap v w))"
  using assms llc_default [where ?'a = 'a] llc_n [where R = R and T = T and n = n]
    llc_copy [of v] llc_move [of v] llc_assign_copy [of v] llc_assign_move [of v w]
    llc_Reserve [where R = R and T = T and n = n and v = v]
    llc_Resize [where R = R and T = T and n = n and v = v]
    llc_EmplaceBack [of v T args] llc_PushBack [of v T args] llc_PopBack [of v]
    llc_Emplace [of v T pos args] llc_Erase [of v pos] llc_Swap [of v w]
  by (simp add: Insert_def)


theorem length_le_capacity_preserved_witness:
  "length_le_capacity \<lparr>data_v = \<lparr>buffer_m = Some [Some (Val (1::nat)), Some (Val 2)], capacity_m = 2\<rparr>, size_v = 2\<rparr>
   \<and> length_le_capacity \<lparr>data_v = \<lparr>buffer_m = Some [Some (Val (7::nat)), None, None], capacity_m = 3\<rparr>, size_v = 1\<rparr>
   \<and> constructs length_le_capacity (Vector_n (plain_runtime 4)
        \<lparr>is_nothrow_move_constructible = True, is_copy_constructible = True, value_init = 0\<rparr> 5
        :: (nat Vector, unit) outcome)
   \<and> leaves length_le_capacity (Reserve (plain_runtime 4)
        \<lparr>is_nothrow_move_constructible = True, is_copy_constructible = True, value_init = 0\<rparr> 5
        \<lparr>data_v = \<lparr>buffer_m = Some [Some (Val (1::nat)), Some (Val 2)], capacity_m = 2\<rparr>, size_v = 2\<rparr>)
   \<and> leaves length_le_capacity (Resize (plain_runtime 4)
        \<lparr>is_nothrow_move_constructible = True, is_copy_constructible = True, value_init = 0\<rparr> 5
        \<lparr>data_v = \<lparr>buffer_m = Some [Some (Val (1::nat)), Some (Val 2)], capacity_m = 2\<rparr>, size_v = 2\<rparr>)
   \<and> length_le_capacity (assign_copy
        \<lparr>data_v = \<lparr>buffer_m = Some [Some (Val (1::nat)), Some (Val 2)], capacity_m = 2\<rparr>, size_v = 2\<rparr>
        (Some \<lparr>data_v = \<lparr>buffer_m = Some [Some (Val (7::nat)), None, None], capacity_m = 3\<rparr>, size_v = 1\<rparr>))
   \<and> leaves length_le_capacity (EmplaceBack \<lparr>is_nothrow_move_constructible = True, is_copy_constructible = True, value_init = 0\<rparr> (Args 9)
        \<lparr>data_v = \<lparr>buffer_m = Some [Some (Val (1::nat)), Some (Val 2)], capacity_m = 2\<rparr>, size_v = 2\<rparr>)
   \<and> leaves length_le_capacity (PopBack
        \<lparr>data_v = \<lparr>buffer_m = Some [Some (Val (1::nat)), Some (Val 2)], capacity_m = 2\<rparr>, size_v = 2\<rparr>)
   \<and> leaves length_le_capacity (Emplace \<lparr>is_nothrow_move_constructible = True, is_copy_constructible = True, value_init = 0\<rparr> 1 (Args 9)
        \<lparr>data_v = \<lparr>buffer_m = Some [Some (Val (1::nat)), Some (Val 2)], capacity_m = 2\<rparr>, size_v = 2\<rparr>)
   \<and> leaves length_le_capacity (Erase 1
        \<lparr>data_v = \<lparr>buffer_m = Some [Some (Val (1::nat)), Some (Val 2)], capacity_m = 2\<rparr>, size_v = 2\<rparr>)"
proof -
  let ?v = "\<lparr>data_v = \<lparr>buffer_m = Some [Some (Val (1::nat)), Some (Val 2)], capacity_m = 2\<rparr>, size_v = 2\<rparr>"
  let ?w = "\<lparr>data_v = \<lparr>buffer_m = Some [Some (Val (7::nat)), None, None], capacity_m = 3\<rparr>, size_v = 1\<rparr>"
  let ?T = "\<lparr>is_nothrow_move_constructible = True, is_copy_constructible = True, value_init = 0::nat\<rparr>"
  have a: "length_le_capacity ?v" by (simp add: length_le_capacity_def Size_def Capacity_def)
  have b: "length_le_capacity ?w" by (simp add: length_le_capacity_def Size_def Capacity_def)
  show ?thesis
    using a b length_le_capacity_preserved [OF a b, where R = "plain_runtime 4" and T = ?T
        and n = 5 and args = "Args 9" and pos = 1]
    by blast
qed

text \<open>One growth step, evaluated.\<close>

lemma EmplaceBack_example:
  "EmplaceBack \<lparr>is_nothrow_move_constructible = False, is_copy_constructible = True, value_init = 0\<rparr> (Args 9)
     \<lparr>data_v = \<lparr>buffer_m = Some [Some (Val (1::nat)), Some (Val 2)], capacity_m = 2\<rparr>, size_v = 2\<rparr>
   = Returned 2 \<lparr>data_v = \<lparr>buffer_m = Some [Some (Val 1), Some (Val 2), Some (Val 9), None], capacity_m = 4\<rparr>, size_v = 3\<rparr>"
  by code_simp

end
